theory Spec2Isabelle
  imports Main "HOL-Library.Sublist"
begin

section \<open>Values, errors and module code\<close>

text \<open>
  The file \<^verbatim>\<open>src/rulesets/reader.ts\<close> loads ruleset documents, follows their
  \<^verbatim>\<open>extends\<close> edges and merges what it finds. JavaScript values that this layer
  only passes around (\<^verbatim>\<open>unknown\<close>, rule definitions, JSON schemas) are values of
  \<open>jsvalue\<close>. A plain object is the map of its own keys; the names it inherits from
  \<^verbatim>\<open>Object.prototype\<close> are listed in \<open>objectPrototype\<close> and are seen by
  \<^verbatim>\<open>in\<close> and by a read. A write under the key \<^verbatim>\<open>__proto__\<close>, which would
  replace the prototype instead of storing a key, is not modelled: the names of rules,
  functions and exceptions are taken to differ from it.
\<close>

datatype jsvalue =
    JUndefined
  | JNull
  | JBool bool
  | JStr string
  | JArr "jsvalue list"
  | JObj "(string \<times> jsvalue) list"
  | JFun string

text \<open>
  Every \<^verbatim>\<open>throw\<close> is a value. \<open>ModuleNotFound path\<close> is the error of the last
  branch of \<^verbatim>\<open>require\<close>, whose message is the path followed by
  \<^verbatim>\<open> does not exist\<close>; \<open>Thrown m\<close> is an error with message \<open>m\<close> raised by a
  collaborator or by module code.
\<close>

datatype error = ModuleNotFound string | Thrown string

fun message :: "error \<Rightarrow> string" where
  "message (ModuleNotFound path) = path @ '' does not exist''"
| "message (Thrown m) = m"

text \<open>
  \<^verbatim>\<open>Function('require, module', text)(require, module)\<close> runs a source text that
  sees two bindings only. Whatever the text computes, the loader observes a sequence of
  calls of \<^verbatim>\<open>require\<close>, reads and writes of \<^verbatim>\<open>module.exports\<close>, and then
  a normal return or a throw; each step may depend on the values received so far.
\<close>

datatype module_code =
    Return
  | Throw string
  | CallRequire string "jsvalue \<Rightarrow> module_code"
  | SetExports jsvalue module_code
  | GetExports "jsvalue \<Rightarrow> module_code"

section \<open>The virtual module loader: createFakeRequire\<close>

text \<open>
  \<open>evaluatedModules\<close> is the object of that name in the closure. \<open>evaluations\<close>
  records, in order, the paths whose source text has been run.
\<close>

record loader =
  evaluatedModules :: "string \<rightharpoonup> jsvalue"
  evaluations :: "string list"

text \<open>
  The property names that an object literal inherits from \<^verbatim>\<open>Object.prototype\<close>.
\<close>

definition objectPrototype :: "string list" where
  "objectPrototype =
     [''constructor'', ''hasOwnProperty'', ''isPrototypeOf'', ''propertyIsEnumerable'',
      ''toLocaleString'', ''toString'', ''valueOf'', ''__proto__'',
      ''__defineGetter__'', ''__defineSetter__'', ''__lookupGetter__'', ''__lookupSetter__'']"

text \<open>
  \<^verbatim>\<open>key in obj\<close> holds for an own key and for an inherited name alike.
\<close>

definition hasProperty :: "(string \<rightharpoonup> 'a) \<Rightarrow> string \<Rightarrow> bool" where
  "hasProperty obj key = (key \<in> dom obj \<or> key \<in> set objectPrototype)"

text \<open>
  \<^verbatim>\<open>obj[key]\<close>: the own value, else the inherited one, else \<^verbatim>\<open>undefined\<close>.
  The inherited names are functions, except \<^verbatim>\<open>__proto__\<close>, which answers with the
  object \<^verbatim>\<open>Object.prototype\<close> itself.
\<close>

definition member :: "(string \<rightharpoonup> jsvalue) \<Rightarrow> string \<Rightarrow> jsvalue" where
  "member obj key =
     (case obj key of
        Some v \<Rightarrow> v
      | None \<Rightarrow>
          if key = ''__proto__''
          then JObj (map (\<lambda>n. (n, JFun (''Object.prototype.'' @ n)))
                       (remove1 ''__proto__'' objectPrototype))
          else if key \<in> set objectPrototype then JFun (''Object.prototype.'' @ key)
          else JUndefined)"

text \<open>The state of the closure that \<^verbatim>\<open>createFakeRequire\<close> returns.\<close>

definition createFakeRequire :: "jsvalue \<Rightarrow> loader" where
  "createFakeRequire createArray =
     \<lparr>evaluatedModules = [''json-ref-escodegen/runtime/create-array.cjs'' \<mapsto> createArray],
      evaluations = []\<rparr>"

text \<open>
  Running the code of the module \<open>path\<close>. \<open>req\<close> is the \<^verbatim>\<open>require\<close> that the
  code receives; the setter of \<^verbatim>\<open>module.exports\<close> writes
  \<^verbatim>\<open>evaluatedModules[path]\<close> and the getter reads it. An error of a nested
  \<^verbatim>\<open>require\<close> leaves the module at once.
\<close>

primrec run ::
  "(loader \<Rightarrow> string \<Rightarrow> ((error + jsvalue) \<times> loader) option) \<Rightarrow> string \<Rightarrow>
   module_code \<Rightarrow> loader \<Rightarrow> ((error + unit) \<times> loader) option" where
  "run req path Return L = Some (Inr (), L)"
| "run req path (Throw m) L = Some (Inl (Thrown m), L)"
| "run req path (CallRequire p k) L =
     (case req L p of
        None \<Rightarrow> None
      | Some (Inl e, L') \<Rightarrow> Some (Inl e, L')
      | Some (Inr v, L') \<Rightarrow> run req path (k v) L')"
| "run req path (SetExports val c) L =
     run req path c (L\<lparr>evaluatedModules := (evaluatedModules L)(path \<mapsto> val)\<rparr>)"
| "run req path (GetExports k) L =
     run req path (k (member (evaluatedModules L) path)) L"

text \<open>
  \<^verbatim>\<open>require(path)\<close>. \<open>Function\<close> gives the behaviour of a source text,
  \<open>availableModules\<close> is the map of generated sources. A module may require itself, so
  the nesting of evaluations is bounded by the first numeric argument: \<open>None\<close> means the
  bound was reached before the call returned.
\<close>

primrec require ::
  "(string \<Rightarrow> module_code) \<Rightarrow> (string \<rightharpoonup> string) \<Rightarrow> nat \<Rightarrow> loader \<Rightarrow> string \<Rightarrow>
   ((error + jsvalue) \<times> loader) option" where
  "require Function availableModules 0 L path =
     (if hasProperty (evaluatedModules L) path
      then Some (Inr (member (evaluatedModules L) path), L)
      else if hasProperty availableModules path then None
      else Some (Inl (ModuleNotFound path), L))"
| "require Function availableModules (Suc n) L path =
     (if hasProperty (evaluatedModules L) path
      then Some (Inr (member (evaluatedModules L) path), L)
      else if hasProperty availableModules path then
        (case run (require Function availableModules n) path
                (Function (the (availableModules path)))
                (L\<lparr>evaluations := evaluations L @ [path]\<rparr>) of
           None \<Rightarrow> None
         | Some (Inl e, L') \<Rightarrow> Some (Inl e, L')
         | Some (Inr u, L') \<Rightarrow> Some (Inr (member (evaluatedModules L') path), L'))
      else Some (Inl (ModuleNotFound path), L))"

section \<open>Ruleset documents and resolved rulesets\<close>

type_synonym FileRulesetSeverity = string

text \<open>
  An entry of \<^verbatim>\<open>extends\<close> is a string or a pair \<^verbatim>\<open>[string, severity]\<close>; the
  field itself is one string or an array of entries. A declared function is a name or a
  pair \<^verbatim>\<open>[name, schema]\<close>.
\<close>

datatype extends_entry = Plain string | Forced string FileRulesetSeverity

datatype extends_field = One string | Many "extends_entry list"

datatype function_decl = FnName string | FnWithSchema string jsvalue

text \<open>The validated document, as \<^verbatim>\<open>assertValidRuleset\<close> returns it.\<close>

record RulesetFile =
  file_extends :: "extends_field option"
  file_rules :: "(string \<rightharpoonup> jsvalue) option"
  file_except :: "(string \<rightharpoonup> string list) option"
  file_formats :: "string list option"
  file_functions :: "function_decl list option"
  file_functionsDir :: "string option"

record RulesetFunction =
  name :: string
  code :: string
  schema :: jsvalue
  source :: string

record IRuleset =
  rules :: "string \<rightharpoonup> jsvalue"
  functionsOf :: "string \<rightharpoonup> RulesetFunction"
  exceptions :: "string \<rightharpoonup> string list"

section \<open>Collaborators\<close>

text \<open>
  Everything that \<^verbatim>\<open>reader.ts\<close> imports is a field of \<open>env\<close>: the path
  functions, the file and network readers, the parsers, the reference resolver
  \<^verbatim>\<open>generate\<close> (which receives the \<^verbatim>\<open>read\<close> and
  \<^verbatim>\<open>shouldResolve\<close> callbacks and answers with the \<^verbatim>\<open>id\<close> and the list of
  its \<^verbatim>\<open>write\<close> calls), the validator and the four mergers. A merger returns the
  target that the source mutates in place. \<^verbatim>\<open>findFile\<close> always answers with a
  locator, a path that exists or else the locator to fall back on; that a document or a
  function file does not exist shows when it is read. \<open>Function\<close> is the behaviour of a source
  text run by \<^verbatim>\<open>Function('require, module', text)\<close>. The options
  \<^verbatim>\<open>timeout\<close>, \<^verbatim>\<open>encoding\<close> and \<^verbatim>\<open>agent\<close> are handed on unchanged
  and are part of the readers here.
\<close>

record env =
  findFile :: "string \<Rightarrow> string \<Rightarrow> string"
  isNPMSource :: "string \<Rightarrow> bool"
  join :: "string list \<Rightarrow> string"
  extname :: "string \<Rightarrow> string"
  readParsable :: "string \<Rightarrow> error + string"
  readFile :: "string \<Rightarrow> error + string"
  JSON_parse :: "string \<Rightarrow> error + jsvalue"
  parse :: "string \<Rightarrow> error + jsvalue"
  generate ::
    "(string \<Rightarrow> error + jsvalue) \<Rightarrow> (string \<Rightarrow> bool) \<Rightarrow> string \<Rightarrow>
     error + (string \<times> (string \<times> string) list)"
  Function :: "string \<Rightarrow> module_code"
  createArray :: jsvalue
  assertValidRuleset :: "jsvalue \<Rightarrow> error + RulesetFile"
  mergeRules ::
    "(string \<rightharpoonup> jsvalue) \<Rightarrow> (string \<rightharpoonup> jsvalue) \<Rightarrow> FileRulesetSeverity \<Rightarrow>
     (string \<rightharpoonup> jsvalue)"
  mergeFunctions ::
    "(string \<rightharpoonup> RulesetFunction) \<Rightarrow> (string \<rightharpoonup> RulesetFunction) \<Rightarrow>
     (string \<rightharpoonup> jsvalue) \<Rightarrow> (string \<rightharpoonup> RulesetFunction)"
  mergeExceptions ::
    "(string \<rightharpoonup> string list) \<Rightarrow> (string \<rightharpoonup> string list) \<Rightarrow> string \<Rightarrow>
     (string \<rightharpoonup> string list)"
  mergeFormats :: "(string \<rightharpoonup> jsvalue) \<Rightarrow> string list \<Rightarrow> (string \<rightharpoonup> jsvalue)"

section \<open>Reading a referenced source\<close>

definition endsWith :: "string \<Rightarrow> string \<Rightarrow> bool" where
  "endsWith s searchString = suffix searchString s"

definition parseContent :: "env \<Rightarrow> string \<Rightarrow> string \<Rightarrow> error + jsvalue" where
  "parseContent env content src =
     (if extname env src = ''.json'' then JSON_parse env content else parse env content)"

text \<open>The \<^verbatim>\<open>fs.read\<close> callback handed to \<^verbatim>\<open>generate\<close>.\<close>

definition read :: "env \<Rightarrow> string \<Rightarrow> error + jsvalue" where
  "read env src =
     (case readParsable env src of
        Inl e \<Rightarrow> Inl e
      | Inr content \<Rightarrow>
          if \<not> endsWith src ''oas/schemas/schema.oas2.json'' \<and>
             \<not> endsWith src ''oas/schemas/schema.oas3.json''
          then parseContent env content src
          else Inr (JStr content))"

definition shouldResolve :: "string \<Rightarrow> bool" where
  "shouldResolve src =
     (\<not> endsWith src ''oas/schemas/schema.oas2.json'' \<and>
      \<not> endsWith src ''oas/schemas/schema.oas3.json'')"

section \<open>The recursive resolver: processRuleset\<close>

text \<open>
  Lines 60 to 90: \<^verbatim>\<open>generate\<close> fills \<^verbatim>\<open>output\<close> through its
  \<^verbatim>\<open>write\<close> calls (a later write to the same target replaces the earlier one), a
  fresh loader instantiates \<^verbatim>\<open>./<id>.cjs\<close>, and the value is validated. The first
  argument bounds the nesting of module evaluations.
\<close>

definition instantiate :: "nat \<Rightarrow> env \<Rightarrow> string \<Rightarrow> (error + RulesetFile) option" where
  "instantiate k env rulesetUri =
     (case generate env (read env) shouldResolve rulesetUri of
        Inl e \<Rightarrow> Some (Inl e)
      | Inr (ident, writes) \<Rightarrow>
          (case require (Function env) (map_of (rev writes)) k
                  (createFakeRequire (createArray env)) (''./'' @ ident @ ''.cjs'') of
             None \<Rightarrow> None
           | Some (Inl e, L) \<Rightarrow> Some (Inl e)
           | Some (Inr v, L) \<Rightarrow> Some (assertValidRuleset env v)))"

text \<open>\<^verbatim>\<open>Array.isArray(extendedRulesets) ? extendedRulesets : [extendedRulesets]\<close>,
  and no iteration at all when the field is absent.\<close>

definition extendedRulesets :: "RulesetFile \<Rightarrow> extends_entry list" where
  "extendedRulesets ruleset =
     (case file_extends ruleset of
        None \<Rightarrow> []
      | Some (One uri) \<Rightarrow> [Plain uri]
      | Some (Many entries) \<Rightarrow> entries)"

fun target :: "extends_entry \<Rightarrow> string" where
  "target (Forced uri s) = uri"
| "target (Plain uri) = uri"

text \<open>The variable \<^verbatim>\<open>parentSeverity\<close> of lines 108 and 111.\<close>

fun parentSeverity :: "FileRulesetSeverity option \<Rightarrow> extends_entry \<Rightarrow> FileRulesetSeverity" where
  "parentSeverity severity (Forced uri s) = (case severity of None \<Rightarrow> s | Some c \<Rightarrow> c)"
| "parentSeverity severity (Plain uri) =
     (case severity of None \<Rightarrow> ''recommended'' | Some c \<Rightarrow> c)"

text \<open>Lines 115 to 119: what one resolved edge adds; \<^verbatim>\<open>null\<close> adds nothing.\<close>

definition mergeExtended ::
  "env \<Rightarrow> string \<Rightarrow> FileRulesetSeverity \<Rightarrow> IRuleset \<Rightarrow> IRuleset option \<Rightarrow> IRuleset" where
  "mergeExtended env baseUri sev acc extendedRuleset =
     (case extendedRuleset of
        None \<Rightarrow> acc
      | Some ext \<Rightarrow>
          \<lparr>rules = mergeRules env (rules acc) (rules ext) sev,
           functionsOf = functionsOf acc ++ functionsOf ext,
           exceptions = mergeExceptions env (exceptions acc) (exceptions ext) baseUri\<rparr>)"

definition rulesetFunctionsBaseDir :: "env \<Rightarrow> string \<Rightarrow> RulesetFile \<Rightarrow> string" where
  "rulesetFunctionsBaseDir env rulesetUri ruleset =
     join env [rulesetUri,
               if isNPMSource env rulesetUri then ''.'' else ''..'',
               case file_functionsDir ruleset of None \<Rightarrow> ''functions'' | Some d \<Rightarrow> d]"

fun fnName :: "function_decl \<Rightarrow> string" where
  "fnName (FnWithSchema n s) = n"
| "fnName (FnName n) = n"

fun fnSchema :: "function_decl \<Rightarrow> jsvalue" where
  "fnSchema (FnWithSchema n s) = s"
| "fnSchema (FnName n) = JNull"

definition warning :: "string \<Rightarrow> error \<Rightarrow> string" where
  "warning fname ex = ''Function '' @ [CHR 0x27] @ fname @ [CHR 0x27] @
                      '' could not be loaded: '' @ message ex"

text \<open>
  Lines 143 to 164. Every callback of \<^verbatim>\<open>Promise.all\<close> locates its file and
  catches the error of \<^verbatim>\<open>readFile\<close> itself, which becomes a line of
  \<^verbatim>\<open>console.warn\<close>; so no callback rejects. The callbacks are taken in the order
  of the declarations, which fixes the order of the warnings and which of two
  declarations of one name is kept. The second component is the list of the warnings.
\<close>

fun resolveFunctions ::
  "env \<Rightarrow> string \<Rightarrow> function_decl list \<Rightarrow> (string \<rightharpoonup> RulesetFunction) \<Rightarrow>
   (string \<rightharpoonup> RulesetFunction) \<times> string list" where
  "resolveFunctions env dir [] resolvedFunctions = (resolvedFunctions, [])"
| "resolveFunctions env dir (fn # fns) resolvedFunctions =
     (let src = findFile env dir (''./'' @ fnName fn @ ''.js'')
      in case readFile env src of
           Inl ex \<Rightarrow>
             (case resolveFunctions env dir fns resolvedFunctions of
                (r, ws) \<Rightarrow> (r, warning (fnName fn) ex # ws))
         | Inr text \<Rightarrow>
             resolveFunctions env dir fns
               (resolvedFunctions(fnName fn \<mapsto>
                  \<lparr>name = fnName fn, code = text, schema = fnSchema fn, source = src\<rparr>)))"

text \<open>Lines 123 to 169: the document's own rules, exceptions, formats and functions.\<close>

definition processOwn ::
  "env \<Rightarrow> string \<Rightarrow> string \<Rightarrow> FileRulesetSeverity option \<Rightarrow> RulesetFile \<Rightarrow> IRuleset \<Rightarrow>
   IRuleset \<times> string list" where
  "processOwn env baseUri rulesetUri severity ruleset acc =
     (let rules1 = (case file_rules ruleset of
                      None \<Rightarrow> rules acc
                    | Some own \<Rightarrow>
                        mergeRules env (rules acc) own
                          (case severity of None \<Rightarrow> ''recommended'' | Some s \<Rightarrow> s));
          exceptions1 = (case file_except ruleset of
                           None \<Rightarrow> exceptions acc
                         | Some ex \<Rightarrow> mergeExceptions env (exceptions acc) ex baseUri);
          rules2 = (case file_formats ruleset of
                      None \<Rightarrow> rules1
                    | Some fs \<Rightarrow> mergeFormats env rules1 fs)
      in case file_functions ruleset of
           None \<Rightarrow>
             (\<lparr>rules = rules2, functionsOf = functionsOf acc, exceptions = exceptions1\<rparr>, [])
         | Some rulesetFunctions \<Rightarrow>
             (case resolveFunctions env (rulesetFunctionsBaseDir env rulesetUri ruleset)
                     rulesetFunctions Map.empty of
                (resolvedFunctions, ws) \<Rightarrow>
                  (\<lparr>rules = rules2,
                    functionsOf = mergeFunctions env (functionsOf acc) resolvedFunctions rules2,
                    exceptions = exceptions1\<rparr>, ws)))"

text \<open>
  \<^verbatim>\<open>processRuleset\<close> and its loop over the \<^verbatim>\<open>extends\<close> entries. The set
  \<^verbatim>\<open>processedRulesets\<close> is shared by all calls of one run, so it is passed in and
  returned; the third component of a result is the list of warnings printed. The
  recursion follows documents that name further documents, so its depth is bounded by
  the numeric argument after \<open>env\<close>: \<open>None\<close> means the bound was reached.
\<close>

fun processRuleset ::
  "nat \<Rightarrow> env \<Rightarrow> nat \<Rightarrow> string set \<Rightarrow> string \<Rightarrow> string \<Rightarrow> FileRulesetSeverity option \<Rightarrow>
   ((error + IRuleset option) \<times> string set \<times> string list) option"
and processExtends ::
  "nat \<Rightarrow> env \<Rightarrow> nat \<Rightarrow> string set \<Rightarrow> string \<Rightarrow> string \<Rightarrow> FileRulesetSeverity option \<Rightarrow>
   extends_entry list \<Rightarrow> IRuleset \<Rightarrow> ((error + IRuleset) \<times> string set \<times> string list) option"
where
  "processRuleset k env 0 processedRulesets baseUri uri severity = None"
| "processRuleset k env (Suc n) processedRulesets baseUri uri severity =
     (let rulesetUri = findFile env (join env [baseUri, ''..'']) uri
      in if rulesetUri \<in> processedRulesets then Some (Inr None, processedRulesets, [])
         else
           (case instantiate k env rulesetUri of
              None \<Rightarrow> None
            | Some (Inl e) \<Rightarrow> Some (Inl e, insert rulesetUri processedRulesets, [])
            | Some (Inr ruleset) \<Rightarrow>
                (case processExtends k env n (insert rulesetUri processedRulesets) baseUri
                        rulesetUri severity (extendedRulesets ruleset)
                        \<lparr>rules = Map.empty, functionsOf = Map.empty, exceptions = Map.empty\<rparr> of
                   None \<Rightarrow> None
                 | Some (Inl e, P, ws) \<Rightarrow> Some (Inl e, P, ws)
                 | Some (Inr acc, P, ws) \<Rightarrow>
                     (case processOwn env baseUri rulesetUri severity ruleset acc of
                        (newRuleset, ws') \<Rightarrow> Some (Inr (Some newRuleset), P, ws @ ws')))))"
| "processExtends k env n processedRulesets baseUri rulesetUri severity [] acc =
     Some (Inr acc, processedRulesets, [])"
| "processExtends k env n processedRulesets baseUri rulesetUri severity (extended # rest) acc =
     (case processRuleset k env n processedRulesets rulesetUri (target extended)
             (Some (parentSeverity severity extended)) of
        None \<Rightarrow> None
      | Some (Inl e, P, ws) \<Rightarrow> Some (Inl e, P, ws)
      | Some (Inr extendedRuleset, P, ws) \<Rightarrow>
          (case processExtends k env n P baseUri rulesetUri severity rest
                  (mergeExtended env baseUri (parentSeverity severity extended) acc
                     extendedRuleset) of
             None \<Rightarrow> None
           | Some (r, P', ws') \<Rightarrow> Some (r, P', ws @ ws')))"

section \<open>The top-level reader: readRuleset\<close>

datatype uris_arg = OneUri string | ManyUris "string list"

text \<open>\<^verbatim>\<open>new Set([...uris])\<close> iterates its distinct elements in the order of their
  first insertion.\<close>

fun addAll :: "string list \<Rightarrow> string list \<Rightarrow> string list" where
  "addAll s [] = s"
| "addAll s (x # xs) = addAll (if x \<in> set s then s else s @ [x]) xs"

definition newSet :: "string list \<Rightarrow> string list" where
  "newSet xs = addAll [] xs"

text \<open>The three \<^verbatim>\<open>Object.assign\<close> of lines 41 to 43.\<close>

definition assign :: "IRuleset \<Rightarrow> IRuleset \<Rightarrow> IRuleset" where
  "assign base resolvedRuleset =
     \<lparr>rules = rules base ++ rules resolvedRuleset,
      functionsOf = functionsOf base ++ functionsOf resolvedRuleset,
      exceptions = exceptions base ++ exceptions resolvedRuleset\<rparr>"

text \<open>The loop of lines 37 to 44; \<^verbatim>\<open>processedRulesets.clear()\<close> makes every
  iteration start from the empty set. There is no \<^verbatim>\<open>try\<close> around the call.\<close>

fun readUris ::
  "nat \<Rightarrow> env \<Rightarrow> nat \<Rightarrow> string list \<Rightarrow> IRuleset \<Rightarrow> ((error + IRuleset) \<times> string list) option" where
  "readUris k env n [] base = Some (Inr base, [])"
| "readUris k env n (uri # uris) base =
     (case processRuleset k env n {} uri uri None of
        None \<Rightarrow> None
      | Some (Inl e, P, ws) \<Rightarrow> Some (Inl e, ws)
      | Some (Inr resolvedRuleset, P, ws) \<Rightarrow>
          (case readUris k env n uris
                  (case resolvedRuleset of None \<Rightarrow> base | Some r \<Rightarrow> assign base r) of
             None \<Rightarrow> None
           | Some (r, ws') \<Rightarrow> Some (r, ws @ ws')))"

definition readRuleset ::
  "nat \<Rightarrow> env \<Rightarrow> nat \<Rightarrow> uris_arg \<Rightarrow> ((error + IRuleset) \<times> string list) option" where
  "readRuleset k env n uris =
     readUris k env n (case uris of OneUri u \<Rightarrow> [u] | ManyUris us \<Rightarrow> newSet us)
       \<lparr>rules = Map.empty, functionsOf = Map.empty, exceptions = Map.empty\<rparr>"

section \<open>Reachable loader states and example inputs\<close>

definition builtin :: string where
  "builtin = ''json-ref-escodegen/runtime/create-array.cjs''"

text \<open>
  The states of the closure that calls of \<^verbatim>\<open>require\<close> can reach from the one
  \<^verbatim>\<open>createFakeRequire\<close> builds: the built-in helper is still cached under its path,
  and every other cached path is a key of the generated sources. Inherited names are
  never stored: the setter is reached only for a path that failed the first test.
\<close>

definition loaderState :: "jsvalue \<Rightarrow> (string \<rightharpoonup> string) \<Rightarrow> loader \<Rightarrow> bool" where
  "loaderState cA A L =
     (evaluatedModules L builtin = Some cA \<and>
      dom (evaluatedModules L) \<subseteq> insert builtin (dom A))"

text \<open>Two generated modules: \<^verbatim>\<open>./main.cjs\<close> requires \<^verbatim>\<open>./dep.cjs\<close> and
  exports an array holding what it received.\<close>

definition exampleModules :: "string \<rightharpoonup> string" where
  "exampleModules = [''./main.cjs'' \<mapsto> ''main'', ''./dep.cjs'' \<mapsto> ''dep'']"

definition exampleFunction :: "string \<Rightarrow> module_code" where
  "exampleFunction text =
     (if text = ''main'' then CallRequire ''./dep.cjs'' (\<lambda>v. SetExports (JArr [v]) Return)
      else if text = ''dep'' then SetExports (JStr ''dep'') Return
      else Return)"

section \<open>An example environment\<close>

text \<open>
  A small file system used to run the model: ruleset documents under the root
  directory, with path functions that are exact for such paths. \<^verbatim>\<open>/a.yaml\<close> extends
  \<^verbatim>\<open>/b.yaml\<close> and \<^verbatim>\<open>/c.yaml\<close>, and \<^verbatim>\<open>/b.yaml\<close> extends \<^verbatim>\<open>/c.yaml\<close>;
  \<^verbatim>\<open>/x.yaml\<close> and \<^verbatim>\<open>/y.yaml\<close> extend each other; the function file of
  \<^verbatim>\<open>f1\<close> exists, those of \<^verbatim>\<open>f2\<close> and \<^verbatim>\<open>f3\<close> do not and cannot be read;
  there is no document \<^verbatim>\<open>/bad.yaml\<close>. The mergers of the example overwrite key by
  key; those of \<open>severityEnv\<close> also record the severity they were given.
\<close>

definition emptyFile :: RulesetFile where
  "emptyFile = \<lparr>file_extends = None, file_rules = None, file_except = None,
                 file_formats = None, file_functions = None, file_functionsDir = None\<rparr>"

definition exampleDocuments :: "string \<rightharpoonup> RulesetFile" where
  "exampleDocuments =
     [''/a.yaml'' \<mapsto> emptyFile\<lparr>file_extends := Some (Many [Plain ''/b.yaml'', Plain ''/c.yaml''])\<rparr>,
      ''/b.yaml'' \<mapsto> emptyFile\<lparr>file_extends := Some (One ''/c.yaml''),
                                 file_rules := Some [''r'' \<mapsto> JStr ''from b'']\<rparr>,
      ''/c.yaml'' \<mapsto> emptyFile\<lparr>file_rules := Some [''r'' \<mapsto> JStr ''from c'']\<rparr>,
      ''/p.yaml'' \<mapsto> emptyFile\<lparr>file_extends := Some (Many [Plain ''/q.yaml'', Forced ''/c.yaml'' ''off''])\<rparr>,
      ''/q.yaml'' \<mapsto> emptyFile\<lparr>file_rules := Some [''r'' \<mapsto> JStr ''from q'']\<rparr>,
      ''/x.yaml'' \<mapsto> emptyFile\<lparr>file_extends := Some (One ''/y.yaml''),
                                 file_rules := Some [''x'' \<mapsto> JStr ''from x'']\<rparr>,
      ''/y.yaml'' \<mapsto> emptyFile\<lparr>file_extends := Some (One ''/x.yaml''),
                                 file_rules := Some [''y'' \<mapsto> JStr ''from y'']\<rparr>,
      ''/f.yaml'' \<mapsto> emptyFile\<lparr>file_functions := Some [FnName ''f1'', FnName ''f2'']\<rparr>,
      ''/g.yaml'' \<mapsto> emptyFile\<lparr>file_functions := Some [FnName ''f1'', FnWithSchema ''f3'' JNull]\<rparr>]"

definition exampleEnv :: env where
  "exampleEnv =
     \<lparr>findFile = (\<lambda>from to.
         if to \<in> dom exampleDocuments then to
         else if take 2 to = ''./'' then from @ ''/'' @ drop 2 to
         else ''https://unpkg.com/'' @ to),
      isNPMSource = (\<lambda>uri. prefix ''https://unpkg.com/'' uri),
      join = (\<lambda>segments.
         case segments of
           [p, s] \<Rightarrow> ''/''
         | [p, s, d] \<Rightarrow> if s = ''..'' then ''/'' @ d else p @ ''/'' @ d
         | _ \<Rightarrow> concat segments),
      extname = (\<lambda>p. if endsWith p ''.json'' then ''.json''
                      else if endsWith p ''.yaml'' then ''.yaml'' else []),
      readParsable = (\<lambda>p. if p \<in> dom exampleDocuments \<or> p = ''/oas/schemas/schema.oas3.json'' \<or> p = ''/data.json''
                           then Inr (''content of '' @ p) else Inl (Thrown ''ENOENT'')),
      readFile = (\<lambda>p. if p = ''/functions/f1.js'' then Inr ''module.exports = () => [];''
                       else Inl (Thrown ''ENOENT'')),
      JSON_parse = (\<lambda>c. Inr (JObj [(''json'', JStr c)])),
      parse = (\<lambda>c. Inr (JObj [(''yaml'', JStr c)])),
      generate = (\<lambda>rd sr uri.
         case rd uri of Inl e \<Rightarrow> Inl e | Inr v \<Rightarrow> Inr (''ruleset'', [(''./ruleset.cjs'', uri)])),
      Function = (\<lambda>text. SetExports (JStr text) Return),
      createArray = JFun ''createArray'',
      assertValidRuleset = (\<lambda>v.
         case v of
           JStr u \<Rightarrow> (case exampleDocuments u of
                        Some d \<Rightarrow> Inr d
                      | None \<Rightarrow> Inl (Thrown ''invalid ruleset''))
         | _ \<Rightarrow> Inl (Thrown ''invalid ruleset'')),
      mergeRules = (\<lambda>t s sev. t ++ s),
      mergeFunctions = (\<lambda>t s rs. t ++ s),
      mergeExceptions = (\<lambda>t s base. t ++ s),
      mergeFormats = (\<lambda>rs fs. rs)\<rparr>"

definition severityEnv :: env where
  "severityEnv =
     exampleEnv\<lparr>mergeRules :=
       (\<lambda>t s sev key. case s key of None \<Rightarrow> t key | Some v \<Rightarrow> Some (JArr [JStr sev, v]))\<rparr>"

section \<open>The contract of the rule merger\<close>

text \<open>
  Modelled from the spec: the mergers of \<^verbatim>\<open>src/rulesets/mergers\<close> are not among the
  sources. The design document gives \<^verbatim>\<open>mergeRules(target, incoming, severity)\<close> as
  writing every incoming rule into the target, with all merges last-writer-wins per key:
  the entry under an incoming key is decided by the incoming table and the severity
  alone, and every other key keeps the entry of the target.
\<close>

definition lastWriterWins ::
  "((string \<rightharpoonup> jsvalue) \<Rightarrow> (string \<rightharpoonup> jsvalue) \<Rightarrow> FileRulesetSeverity \<Rightarrow>
    (string \<rightharpoonup> jsvalue)) \<Rightarrow> bool" where
  "lastWriterWins merge =
     (\<forall>t s sev key. merge t s sev key =
        (if key \<in> dom s then merge Map.empty s sev key else t key))"

section \<open>Verified properties\<close>

subsection \<open>The virtual module loader\<close>

lemma hasProperty_own: "key \<in> dom obj \<Longrightarrow> hasProperty obj key"
  by (simp add: hasProperty_def)

lemma run_not_found:
  assumes req: "\<forall>L p L'. req L p = Some (Inl (ModuleNotFound q), L') \<longrightarrow> \<not> hasProperty A q"
  shows "run req path c L = Some (Inl (ModuleNotFound q), L') \<Longrightarrow> \<not> hasProperty A q"
proof (induction c arbitrary: L)
  case (CallRequire p k)
  show ?case
  proof (cases "req L p")
    case None
    with CallRequire.prems show ?thesis by simp
  next
    case (Some a)
    obtain res L1 where a: "a = (res, L1)" by (cases a)
    show ?thesis
    proof (cases res)
      case (Inl e)
      with CallRequire.prems Some a have "req L p = Some (Inl (ModuleNotFound q), L')" by simp
      with req show ?thesis by blast
    next
      case (Inr v)
      with CallRequire.prems Some a
      have "run req path (k v) L1 = Some (Inl (ModuleNotFound q), L')" by simp
      with CallRequire.IH[of "k v" L1] show ?thesis by blast
    qed
  qed
next
  case (GetExports k)
  from GetExports.prems
  have "run req path (k (member (evaluatedModules L) path)) L = Some (Inl (ModuleNotFound q), L')"
    by simp
  with GetExports.IH[of "k (member (evaluatedModules L) path)" L] show ?case by blast
qed auto

lemma require_not_found:
  "require F A n L p = Some (Inl (ModuleNotFound q), L') \<Longrightarrow> \<not> hasProperty A q"
proof (induction n arbitrary: L p L')
  case 0
  then show ?case by (auto split: if_splits)
next
  case (Suc n)
  have req: "\<forall>L p L'. require F A n L p = Some (Inl (ModuleNotFound q), L') \<longrightarrow> \<not> hasProperty A q"
    using Suc.IH by blast
  show ?case
  proof (cases "\<not> hasProperty (evaluatedModules L) p \<and> hasProperty A p")
    case False
    with Suc.prems show ?thesis by (auto split: if_splits)
  next
    case True
    let ?L0 = "L\<lparr>evaluations := evaluations L @ [p]\<rparr>"
    from True Suc.prems
    have "run (require F A n) p (F (the (A p))) ?L0 = Some (Inl (ModuleNotFound q), L')"
      by (auto split: option.splits sum.splits prod.splits)
    with run_not_found[OF req] show ?thesis by blast
  qed
qed

lemma run_evaluations:
  assumes req: "\<forall>L p r L'. req L p = Some (r, L') \<longrightarrow> (\<exists>ys. evaluations L' = evaluations L @ ys)"
  shows "run req path c L = Some (r, L') \<Longrightarrow> \<exists>ys. evaluations L' = evaluations L @ ys"
proof (induction c arbitrary: L)
  case (CallRequire p k)
  show ?case
  proof (cases "req L p")
    case None
    with CallRequire.prems show ?thesis by simp
  next
    case (Some a)
    obtain res L1 where a: "a = (res, L1)" by (cases a)
    from req Some a obtain ys where ys: "evaluations L1 = evaluations L @ ys" by blast
    show ?thesis
    proof (cases res)
      case (Inl e)
      with CallRequire.prems Some a ys show ?thesis by auto
    next
      case (Inr v)
      with CallRequire.prems Some a have "run req path (k v) L1 = Some (r, L')" by simp
      with CallRequire.IH[of "k v" L1] obtain zs where "evaluations L' = evaluations L1 @ zs"
        by blast
      with ys show ?thesis by simp
    qed
  qed
next
  case (SetExports v c)
  from SetExports.IH[of "L\<lparr>evaluatedModules := (evaluatedModules L)(path \<mapsto> v)\<rparr>"] SetExports.prems
  show ?case by simp
next
  case (GetExports k)
  from GetExports.prems
  have "run req path (k (member (evaluatedModules L) path)) L = Some (r, L')" by simp
  with GetExports.IH[of "k (member (evaluatedModules L) path)" L] show ?case by blast
qed auto

lemma require_evaluations:
  "require F A n L p = Some (r, L') \<Longrightarrow> \<exists>ys. evaluations L' = evaluations L @ ys"
proof (induction n arbitrary: L p r L')
  case 0
  then show ?case by (auto split: if_splits)
next
  case (Suc n)
  have req: "\<forall>L p r L'. require F A n L p = Some (r, L') \<longrightarrow> (\<exists>ys. evaluations L' = evaluations L @ ys)"
    using Suc.IH by blast
  show ?case
  proof (cases "\<not> hasProperty (evaluatedModules L) p \<and> hasProperty A p")
    case False
    with Suc.prems show ?thesis by (auto split: if_splits)
  next
    case True
    let ?L0 = "L\<lparr>evaluations := evaluations L @ [p]\<rparr>"
    from True Suc.prems obtain u where
      "run (require F A n) p (F (the (A p))) ?L0 = Some (u, L')"
      by (auto split: option.splits sum.splits prod.splits)
    with run_evaluations[OF req] have "\<exists>ys. evaluations L' = evaluations ?L0 @ ys" by blast
    then show ?thesis by auto
  qed
qed

lemma loaderState_createFakeRequire: "loaderState cA A (createFakeRequire cA)"
  by (simp add: loaderState_def createFakeRequire_def builtin_def)

lemma run_loaderState:
  assumes req: "\<forall>L p r L'. loaderState cA A L \<longrightarrow> req L p = Some (r, L') \<longrightarrow> loaderState cA A L'"
    and path: "path \<noteq> builtin" "path \<in> dom A"
  shows "loaderState cA A L \<Longrightarrow> run req path c L = Some (r, L') \<Longrightarrow> loaderState cA A L'"
proof (induction c arbitrary: L)
  case (CallRequire p k)
  show ?case
  proof (cases "req L p")
    case None
    with CallRequire.prems show ?thesis by simp
  next
    case (Some a)
    obtain res L1 where a: "a = (res, L1)" by (cases a)
    from req CallRequire.prems(1) Some a have L1: "loaderState cA A L1" by blast
    show ?thesis
    proof (cases res)
      case (Inl e)
      with CallRequire.prems Some a L1 show ?thesis by auto
    next
      case (Inr v)
      with CallRequire.prems Some a have "run req path (k v) L1 = Some (r, L')" by simp
      with CallRequire.IH[of "k v" L1] L1 show ?thesis by blast
    qed
  qed
next
  case (SetExports v c)
  let ?L1 = "L\<lparr>evaluatedModules := (evaluatedModules L)(path \<mapsto> v)\<rparr>"
  from SetExports.prems(1) path have "loaderState cA A ?L1"
    by (auto simp: loaderState_def)
  with SetExports.IH[of ?L1] SetExports.prems(2) show ?case by simp
next
  case (GetExports k)
  from GetExports.prems
  have "run req path (k (member (evaluatedModules L) path)) L = Some (r, L')" by simp
  with GetExports.IH[of "k (member (evaluatedModules L) path)" L] GetExports.prems(1)
  show ?case by blast
qed auto

lemma require_loaderState:
  "loaderState cA A L \<Longrightarrow> require F A n L p = Some (r, L') \<Longrightarrow> loaderState cA A L'"
proof (induction n arbitrary: L p r L')
  case 0
  then show ?case by (auto split: if_splits)
next
  case (Suc n)
  have req: "\<forall>L p r L'. loaderState cA A L \<longrightarrow> require F A n L p = Some (r, L') \<longrightarrow> loaderState cA A L'"
    using Suc.IH by blast
  show ?case
  proof (cases "\<not> hasProperty (evaluatedModules L) p \<and> hasProperty A p")
    case False
    with Suc.prems show ?thesis by (auto split: if_splits)
  next
    case True
    let ?L0 = "L\<lparr>evaluations := evaluations L @ [p]\<rparr>"
    from Suc.prems(1) have L0: "loaderState cA A ?L0" by (simp add: loaderState_def)
    from True Suc.prems(1) have pb: "p \<noteq> builtin"
      by (auto simp: loaderState_def hasProperty_def)
    from True have pA: "p \<in> dom A" by (auto simp: hasProperty_def)
    from True Suc.prems obtain u where
      "run (require F A n) p (F (the (A p))) ?L0 = Some (u, L')"
      by (auto split: option.splits sum.splits prod.splits)
    with run_loaderState[OF req pb pA] L0 show ?thesis by blast
  qed
qed

lemma require_cached:
  "hasProperty (evaluatedModules L) p \<Longrightarrow>
   require F A n L p = Some (Inr (member (evaluatedModules L) p), L)"
  by (cases n) simp_all

lemma require_missing:
  "\<not> hasProperty (evaluatedModules L) p \<Longrightarrow> \<not> hasProperty A p \<Longrightarrow>
   require F A n L p = Some (Inl (ModuleNotFound p), L)"
  by (cases n) simp_all

lemma require_runs:
  assumes "\<not> hasProperty (evaluatedModules L) p" "hasProperty A p"
    "require F A n L p = Some (r, L')"
  shows "\<exists>ys. evaluations L' = evaluations L @ p # ys"
proof (cases n)
  case 0
  with assms show ?thesis by simp
next
  case (Suc m)
  let ?L0 = "L\<lparr>evaluations := evaluations L @ [p]\<rparr>"
  have req: "\<forall>L p r L'. require F A m L p = Some (r, L') \<longrightarrow> (\<exists>ys. evaluations L' = evaluations L @ ys)"
    using require_evaluations by blast
  from assms Suc obtain u where
    "run (require F A m) p (F (the (A p))) ?L0 = Some (u, L')"
    by (auto split: option.splits sum.splits prod.splits)
  with run_evaluations[OF req] have "\<exists>ys. evaluations L' = evaluations ?L0 @ ys" by blast
  then show ?thesis by auto
qed

text \<open>
  What holds of \<^verbatim>\<open>require\<close> in every reachable state: the built-in helper is
  answered from the cache whatever the generated sources hold; a path that is neither
  cached nor inherited and is a key of the generated sources has its source text run;
  and the error \<^verbatim>\<open>p does not exist\<close> is raised exactly when \<open>p\<close> is neither the
  path of the built-in helper, nor a key of the generated sources, nor a name inherited
  from \<^verbatim>\<open>Object.prototype\<close>.
\<close>

lemma require_error_iff:
  assumes "loaderState cA A L"
  shows "require F A n L builtin = Some (Inr cA, L) \<and>
         (\<not> hasProperty (evaluatedModules L) p \<longrightarrow> p \<in> dom A \<longrightarrow>
            (\<forall>r L'. require F A n L p = Some (r, L') \<longrightarrow>
               (\<exists>ys. evaluations L' = evaluations L @ p # ys))) \<and>
         ((\<exists>L'. require F A n L p = Some (Inl (ModuleNotFound p), L')) \<longleftrightarrow>
            (p \<noteq> builtin \<and> p \<notin> dom A \<and> p \<notin> set objectPrototype))"
proof -
  from assms have own: "evaluatedModules L builtin = Some cA"
    and sub: "dom (evaluatedModules L) \<subseteq> insert builtin (dom A)"
    by (simp_all add: loaderState_def)
  from own have bdom: "builtin \<in> dom (evaluatedModules L)" by (simp add: domI)
  have bhas: "hasProperty (evaluatedModules L) builtin" by (rule hasProperty_own[OF bdom])
  from own have bval: "member (evaluatedModules L) builtin = cA" by (simp add: member_def)
  have first: "require F A n L builtin = Some (Inr cA, L)"
    using require_cached[OF bhas] bval by simp
  have second: "\<not> hasProperty (evaluatedModules L) p \<longrightarrow> p \<in> dom A \<longrightarrow>
        (\<forall>r L'. require F A n L p = Some (r, L') \<longrightarrow>
           (\<exists>ys. evaluations L' = evaluations L @ p # ys))"
  proof (intro impI allI)
    fix r L'
    assume nh: "\<not> hasProperty (evaluatedModules L) p" and pA: "p \<in> dom A"
      and eq: "require F A n L p = Some (r, L')"
    show "\<exists>ys. evaluations L' = evaluations L @ p # ys"
      by (rule require_runs[OF nh hasProperty_own[OF pA] eq])
  qed
  have third: "(\<exists>L'. require F A n L p = Some (Inl (ModuleNotFound p), L')) \<longleftrightarrow>
        (p \<noteq> builtin \<and> p \<notin> dom A \<and> p \<notin> set objectPrototype)"
  proof
    assume "\<exists>L'. require F A n L p = Some (Inl (ModuleNotFound p), L')"
    then obtain L' where r: "require F A n L p = Some (Inl (ModuleNotFound p), L')" ..
    have "\<not> hasProperty A p" by (rule require_not_found[OF r])
    then have nA: "p \<notin> dom A" and nP: "p \<notin> set objectPrototype"
      by (simp_all add: hasProperty_def)
    have nb: "p \<noteq> builtin"
    proof
      assume "p = builtin"
      with bhas have "hasProperty (evaluatedModules L) p" by simp
      from require_cached[OF this] r show False by simp
    qed
    from nb nA nP show "p \<noteq> builtin \<and> p \<notin> dom A \<and> p \<notin> set objectPrototype" by simp
  next
    assume a: "p \<noteq> builtin \<and> p \<notin> dom A \<and> p \<notin> set objectPrototype"
    with sub have "p \<notin> dom (evaluatedModules L)" by blast
    with a have n1: "\<not> hasProperty (evaluatedModules L) p" by (simp add: hasProperty_def)
    from a have n2: "\<not> hasProperty A p" by (simp add: hasProperty_def)
    from require_missing[OF n1 n2]
    show "\<exists>L'. require F A n L p = Some (Inl (ModuleNotFound p), L')" by blast
  qed
  from first second third show ?thesis by (intro conjI)
qed

text \<open>
  Claim C6. The claim asks for the error exactly when the identifier is neither a
  built-in helper nor a key of the generated sources. \<^verbatim>\<open>toString\<close> is neither, yet
  \<^verbatim>\<open>'toString' in evaluatedModules\<close> holds through the prototype chain, so the
  first branch of \<^verbatim>\<open>require\<close> answers with the inherited function and no error is
  raised.
\<close>

theorem require_inherited_name:
  "''toString'' \<noteq> builtin \<and> ''toString'' \<notin> dom exampleModules \<and>
   require exampleFunction exampleModules 2 (createFakeRequire (JFun ''createArray''))
     ''toString'' =
     Some (Inr (JFun ''Object.prototype.toString''), createFakeRequire (JFun ''createArray''))"
  by (simp add: builtin_def exampleModules_def createFakeRequire_def hasProperty_def
        objectPrototype_def member_def numeral_2_eq_2)

lemma example_first_request:
  "require exampleFunction exampleModules 2 (createFakeRequire (JFun ''createArray'')) ''./main.cjs'' =
   Some (Inr (JArr [JStr ''dep'']),
         \<lparr>evaluatedModules = [''json-ref-escodegen/runtime/create-array.cjs'' \<mapsto> JFun ''createArray'',
                               ''./dep.cjs'' \<mapsto> JStr ''dep'', ''./main.cjs'' \<mapsto> JArr [JStr ''dep'']],
          evaluations = [''./main.cjs'', ''./dep.cjs'']\<rparr>)"
  by (simp add: numeral_2_eq_2 exampleFunction_def exampleModules_def createFakeRequire_def
        member_def hasProperty_def objectPrototype_def)

text \<open>
  Claim C7. When a request for \<open>p\<close> has returned and the module has assigned
  \<^verbatim>\<open>module.exports\<close> (so \<open>p\<close> is a key of \<^verbatim>\<open>evaluatedModules\<close>), a
  second request returns the same value and leaves the loader as it is: no source text is
  run again.
\<close>

theorem require_twice:
  assumes "require F A n L p = Some (Inr v, L1)" and "p \<in> dom (evaluatedModules L1)"
  shows "require F A m L1 p = Some (Inr v, L1)"
proof -
  have "v = member (evaluatedModules L1) p"
  proof (cases "hasProperty (evaluatedModules L) p")
    case True
    from require_cached[OF True, of F A n] assms(1) show ?thesis by simp
  next
    case False
    show ?thesis
    proof (cases n)
      case 0
      with False assms(1) show ?thesis by (auto split: if_splits)
    next
      case (Suc k)
      with False assms(1) show ?thesis
        by (auto split: if_splits option.splits sum.splits prod.splits)
    qed
  qed
  with require_cached[OF hasProperty_own[OF assms(2)], of F A m] show ?thesis by simp
qed

theorem require_twice_witness:
  "require exampleFunction exampleModules 2 (createFakeRequire (JFun ''createArray''))
     ''./main.cjs'' =
     Some (Inr (JArr [JStr ''dep'']),
           \<lparr>evaluatedModules = [''json-ref-escodegen/runtime/create-array.cjs'' \<mapsto> JFun ''createArray'',
                                 ''./dep.cjs'' \<mapsto> JStr ''dep'', ''./main.cjs'' \<mapsto> JArr [JStr ''dep'']],
            evaluations = [''./main.cjs'', ''./dep.cjs'']\<rparr>) \<and>
   require exampleFunction exampleModules 0
     \<lparr>evaluatedModules = [''json-ref-escodegen/runtime/create-array.cjs'' \<mapsto> JFun ''createArray'',
                           ''./dep.cjs'' \<mapsto> JStr ''dep'', ''./main.cjs'' \<mapsto> JArr [JStr ''dep'']],
      evaluations = [''./main.cjs'', ''./dep.cjs'']\<rparr> ''./main.cjs'' =
     Some (Inr (JArr [JStr ''dep'']),
           \<lparr>evaluatedModules = [''json-ref-escodegen/runtime/create-array.cjs'' \<mapsto> JFun ''createArray'',
                                 ''./dep.cjs'' \<mapsto> JStr ''dep'', ''./main.cjs'' \<mapsto> JArr [JStr ''dep'']],
            evaluations = [''./main.cjs'', ''./dep.cjs'']\<rparr>)"
proof -
  note first = example_first_request
  have cached: "''./main.cjs'' \<in> dom (evaluatedModules
     \<lparr>evaluatedModules = [''json-ref-escodegen/runtime/create-array.cjs'' \<mapsto> JFun ''createArray'',
                           ''./dep.cjs'' \<mapsto> JStr ''dep'', ''./main.cjs'' \<mapsto> JArr [JStr ''dep'']],
      evaluations = [''./main.cjs'', ''./dep.cjs'']\<rparr>)"
    by simp
  from require_twice[OF first cached, of 0] first show ?thesis by simp
qed

subsection \<open>Reading and parsing a source\<close>

lemmas example_defs = instantiate_def exampleEnv_def read_def shouldResolve_def endsWith_def
      hasProperty_def objectPrototype_def
      suffix_to_prefix parseContent_def createFakeRequire_def member_def exampleDocuments_def
      emptyFile_def extendedRulesets_def processOwn_def mergeExtended_def
      rulesetFunctionsBaseDir_def warning_def


text \<open>
  Claim C8. For a source whose content could be fetched: when its locator ends with one
  of the two excluded schema suffixes, \<^verbatim>\<open>read\<close> returns the raw text itself,
  whatever the two parsers are, and \<^verbatim>\<open>shouldResolve\<close> answers false; otherwise
  the source is resolved further and its content is parsed, by \<^verbatim>\<open>JSON.parse\<close>
  when \<^verbatim>\<open>extname\<close> of the locator is \<^verbatim>\<open>.json\<close> and by the YAML parser
  otherwise.
\<close>

theorem read_source:
  assumes "readParsable env src = Inr content"
  shows "if endsWith src ''oas/schemas/schema.oas2.json'' \<or>
            endsWith src ''oas/schemas/schema.oas3.json''
         then read env src = Inr (JStr content) \<and> \<not> shouldResolve src \<and>
              (\<forall>j y. read (env\<lparr>JSON_parse := j, parse := y\<rparr>) src = Inr (JStr content))
         else shouldResolve src \<and>
              read env src = parseContent env content src \<and>
              parseContent env content src =
                (if extname env src = ''.json'' then JSON_parse env content
                 else parse env content)"
  using assms by (simp add: read_def shouldResolve_def parseContent_def)

theorem read_source_witness:
  "readParsable exampleEnv ''/oas/schemas/schema.oas3.json'' =
     Inr ''content of /oas/schemas/schema.oas3.json'' \<and>
   read exampleEnv ''/oas/schemas/schema.oas3.json'' =
     Inr (JStr ''content of /oas/schemas/schema.oas3.json'') \<and>
   \<not> shouldResolve ''/oas/schemas/schema.oas3.json'' \<and>
   readParsable exampleEnv ''/data.json'' = Inr ''content of /data.json'' \<and>
   shouldResolve ''/data.json'' \<and>
   read exampleEnv ''/data.json'' = JSON_parse exampleEnv ''content of /data.json'' \<and>
   readParsable exampleEnv ''/c.yaml'' = Inr ''content of /c.yaml'' \<and>
   read exampleEnv ''/c.yaml'' = parse exampleEnv ''content of /c.yaml''"
proof -
  have r1: "readParsable exampleEnv ''/oas/schemas/schema.oas3.json'' =
              Inr ''content of /oas/schemas/schema.oas3.json''"
    by (simp add: exampleEnv_def)
  have r2: "readParsable exampleEnv ''/data.json'' = Inr ''content of /data.json''"
    by (simp add: exampleEnv_def)
  have r3: "readParsable exampleEnv ''/c.yaml'' = Inr ''content of /c.yaml''"
    by (simp add: exampleEnv_def exampleDocuments_def)
  have e1: "endsWith ''/oas/schemas/schema.oas3.json'' ''oas/schemas/schema.oas3.json''"
    by (simp add: endsWith_def suffix_to_prefix)
  have e2: "\<not> endsWith ''/data.json'' ''oas/schemas/schema.oas2.json''"
           "\<not> endsWith ''/data.json'' ''oas/schemas/schema.oas3.json''"
           "extname exampleEnv ''/data.json'' = ''.json''"
    by (simp_all add: endsWith_def suffix_to_prefix exampleEnv_def)
  have e3: "\<not> endsWith ''/c.yaml'' ''oas/schemas/schema.oas2.json''"
           "\<not> endsWith ''/c.yaml'' ''oas/schemas/schema.oas3.json''"
           "extname exampleEnv ''/c.yaml'' \<noteq> ''.json''"
    by (simp_all add: endsWith_def suffix_to_prefix exampleEnv_def)
  from read_source[OF r1] read_source[OF r2] read_source[OF r3] r1 r2 r3 e1 e2 e3
  show ?thesis by simp
qed

subsection \<open>The cycle guard\<close>

lemma processExtends_mono_step:
  assumes IH: "\<forall>P b u s r P' ws. processRuleset k env n P b u s = Some (r, P', ws) \<longrightarrow> P \<subseteq> P'"
  shows "processExtends k env n P b u s es acc = Some (r, P', ws) \<Longrightarrow> P \<subseteq> P'"
proof (induction es arbitrary: P acc r P' ws)
  case Nil
  then show ?case by simp
next
  case (Cons e es)
  from Cons.prems obtain x P1 w1 where
    c: "processRuleset k env n P u (target e) (Some (parentSeverity s e)) = Some (x, P1, w1)"
    by (auto split: option.splits)
  with IH have P1: "P \<subseteq> P1" by blast
  show ?case
  proof (cases x)
    case (Inl err)
    with Cons.prems c P1 show ?thesis by auto
  next
    case (Inr child)
    with Cons.prems c obtain w2 where
      "processExtends k env n P1 b u s es (mergeExtended env b (parentSeverity s e) acc child) =
         Some (r, P', w2)"
      by (auto split: option.splits)
    from Cons.IH[OF this] P1 show ?thesis by blast
  qed
qed

lemma processRuleset_mono:
  "processRuleset k env n P b u s = Some (r, P', ws) \<Longrightarrow> P \<subseteq> P'"
proof (induction n arbitrary: P b u s r P' ws)
  case 0
  then show ?case by simp
next
  case (Suc n)
  have IH: "\<forall>P b u s r P' ws. processRuleset k env n P b u s = Some (r, P', ws) \<longrightarrow> P \<subseteq> P'"
    using Suc.IH by blast
  let ?uri = "findFile env (join env [b, ''..'']) u"
  show ?case
  proof (cases "?uri \<in> P")
    case True
    with Suc.prems show ?thesis by (simp add: Let_def)
  next
    case False
    show ?thesis
    proof (cases "instantiate k env ?uri")
      case None
      with False Suc.prems show ?thesis by (simp add: Let_def)
    next
      case (Some a)
      show ?thesis
      proof (cases a)
        case (Inl e)
        with False Some Suc.prems show ?thesis by (auto simp: Let_def)
      next
        case (Inr ruleset)
        with False Some Suc.prems
        obtain x P1 w1 where
          "processExtends k env n (insert ?uri P) b ?uri s (extendedRulesets ruleset)
             \<lparr>rules = Map.empty, functionsOf = Map.empty, exceptions = Map.empty\<rparr> =
           Some (x, P1, w1)" and "P' = P1"
          by (auto simp: Let_def split: option.splits sum.splits prod.splits)
        with processExtends_mono_step[OF IH] show ?thesis by blast
      qed
    qed
  qed
qed

lemma processExtends_mono:
  "processExtends k env n P b u s es acc = Some (r, P', ws) \<Longrightarrow> P \<subseteq> P'"
proof -
  have "\<forall>P b u s r P' ws. processRuleset k env n P b u s = Some (r, P', ws) \<longrightarrow> P \<subseteq> P'"
    using processRuleset_mono by blast
  from processExtends_mono_step[OF this] show
    "processExtends k env n P b u s es acc = Some (r, P', ws) \<Longrightarrow> P \<subseteq> P'" .
qed

lemma processExtends_returns_step:
  assumes fin: "finite U"
    and IH: "\<forall>P b u s. card (U - P) < n \<longrightarrow> (\<exists>res. processRuleset k env n P b u s = Some res)"
  shows "card (U - P) < n \<Longrightarrow> \<exists>res. processExtends k env n P b u s es acc = Some res"
proof (induction es arbitrary: P acc)
  case Nil
  then show ?case by simp
next
  case (Cons e es)
  from IH Cons.prems obtain x P1 w1 where
    c: "processRuleset k env n P u (target e) (Some (parentSeverity s e)) = Some (x, P1, w1)"
    by (metis prod_cases3)
  show ?case
  proof (cases x)
    case (Inl err)
    with c show ?thesis by simp
  next
    case (Inr child)
    from processRuleset_mono[OF c] have "U - P1 \<subseteq> U - P" by blast
    with fin have "card (U - P1) \<le> card (U - P)" by (simp add: card_mono)
    with Cons.prems have "card (U - P1) < n" by simp
    from Cons.IH[OF this, of "mergeExtended env b (parentSeverity s e) acc child"]
    obtain res where
      "processExtends k env n P1 b u s es (mergeExtended env b (parentSeverity s e) acc child) =
         Some res" by blast
    with c Inr show ?thesis by (cases res) simp
  qed
qed

lemma processRuleset_returns:
  assumes fin: "finite U"
    and dom: "\<forall>u d. instantiate k env u = Some (Inr d) \<longrightarrow> u \<in> U"
    and inst: "\<forall>u. instantiate k env u \<noteq> None"
  shows "card (U - P) < n \<Longrightarrow> \<exists>res. processRuleset k env n P b u s = Some res"
proof (induction n arbitrary: P b u s)
  case 0
  then show ?case by simp
next
  case (Suc n)
  have IH: "\<forall>P b u s. card (U - P) < n \<longrightarrow> (\<exists>res. processRuleset k env n P b u s = Some res)"
    using Suc.IH by blast
  let ?uri = "findFile env (join env [b, ''..'']) u"
  show ?case
  proof (cases "?uri \<in> P")
    case True
    then show ?thesis by (simp add: Let_def)
  next
    case False
    from inst obtain a where a: "instantiate k env ?uri = Some a" by blast
    show ?thesis
    proof (cases a)
      case (Inl e)
      with False a show ?thesis by (simp add: Let_def)
    next
      case (Inr ruleset)
      with a dom have "?uri \<in> U" by blast
      with False have "?uri \<in> U - P" by simp
      moreover have "U - insert ?uri P = (U - P) - {?uri}" by blast
      ultimately have "card (U - insert ?uri P) < card (U - P)"
        using fin card_Diff1_less[of "U - P" ?uri] by simp
      with Suc.prems have "card (U - insert ?uri P) < n" by simp
      from processExtends_returns_step[OF fin IH this]
      obtain res where
        r: "processExtends k env n (insert ?uri P) b ?uri s (extendedRulesets ruleset)
             \<lparr>rules = Map.empty, functionsOf = Map.empty, exceptions = Map.empty\<rparr> = Some res"
        by blast
      obtain x P1 w1 where res: "res = (x, P1, w1)" by (cases res)
      show ?thesis
      proof (cases x)
        case (Inl e)
        with False a r res \<open>a = Inr ruleset\<close> show ?thesis by (simp add: Let_def)
      next
        case (Inr acc)
        with False a r res \<open>a = Inr ruleset\<close> show ?thesis
          by (cases "processOwn env b ?uri s ruleset acc") (simp add: Let_def)
      qed
    qed
  qed
qed

lemma processRuleset_visited:
  assumes "findFile env (join env [b, ''..'']) u = rulesetUri" "rulesetUri \<in> P" "0 < n"
  shows "processRuleset k env n P b u s = Some (Inr None, P, [])"
proof -
  from \<open>0 < n\<close> obtain m where "n = Suc m" by (cases n) auto
  with assms show ?thesis by (simp add: Let_def)
qed

lemma processExtends_skip:
  assumes "findFile env (join env [u, ''..'']) (target e) = v" "v \<in> P" "0 < n"
  shows "processExtends k env n P b u s (e # rest) acc = processExtends k env n P b u s rest acc"
proof -
  from processRuleset_visited[OF assms]
  have c: "processRuleset k env n P u (target e) (Some (parentSeverity s e)) =
             Some (Inr None, P, [])" .
  show ?thesis
  proof (cases "processExtends k env n P b u s rest acc")
    case None
    with c show ?thesis by (simp add: mergeExtended_def)
  next
    case (Some res)
    with c show ?thesis by (cases res) (simp add: mergeExtended_def)
  qed
qed

lemma processRuleset_unfold:
  assumes f: "findFile env (join env [b, ''..'']) u = rulesetUri"
    and nv: "rulesetUri \<notin> P"
    and i: "instantiate k env rulesetUri = Some (Inr ruleset)"
  shows "processRuleset k env (Suc m) P b u s =
           (case processExtends k env m (insert rulesetUri P) b rulesetUri s
                   (extendedRulesets ruleset)
                   \<lparr>rules = Map.empty, functionsOf = Map.empty, exceptions = Map.empty\<rparr> of
              None \<Rightarrow> None
            | Some (Inl e, P', ws) \<Rightarrow> Some (Inl e, P', ws)
            | Some (Inr acc, P', ws) \<Rightarrow>
                (case processOwn env b rulesetUri s ruleset acc of
                   (newRuleset, ws') \<Rightarrow> Some (Inr (Some newRuleset), P', ws @ ws')))"
  using f nv i by (simp add: Let_def)

text \<open>
  Claim C4. Let the documents that can be loaded lie in a finite set \<open>U\<close>, let the
  instantiation of a document always return, and let the depth bound exceed the number
  of documents of \<open>U\<close> not yet visited. Then \<^verbatim>\<open>processRuleset\<close> returns, for any
  \<^verbatim>\<open>extends\<close> graph, cyclic or not. A request for an identity that is already in
  \<^verbatim>\<open>processedRulesets\<close> returns \<^verbatim>\<open>null\<close> and changes nothing. An identity that
  is new is in the set when the loop over its \<^verbatim>\<open>extends\<close> entries starts. An entry
  whose target is already in the set is skipped: the accumulated ruleset and the set
  are as if the entry were absent.
\<close>

theorem cycle_guard:
  assumes fin: "finite U"
    and dom: "\<forall>u d. instantiate k env u = Some (Inr d) \<longrightarrow> u \<in> U"
    and inst: "\<forall>u. instantiate k env u \<noteq> None"
    and fuel: "card (U - P) < n"
  shows "(\<exists>res. processRuleset k env n P baseUri uri severity = Some res) \<and>
         (\<forall>rulesetUri. findFile env (join env [baseUri, ''..'']) uri = rulesetUri \<and>
                       rulesetUri \<in> P \<longrightarrow>
            processRuleset k env n P baseUri uri severity = Some (Inr None, P, [])) \<and>
         (\<forall>rulesetUri ruleset.
            findFile env (join env [baseUri, ''..'']) uri = rulesetUri \<and>
            rulesetUri \<notin> P \<and> instantiate k env rulesetUri = Some (Inr ruleset) \<longrightarrow>
            (\<exists>r P' ws.
               processExtends k env (n - 1) (insert rulesetUri P) baseUri rulesetUri severity
                 (extendedRulesets ruleset)
                 \<lparr>rules = Map.empty, functionsOf = Map.empty, exceptions = Map.empty\<rparr> =
                 Some (r, P', ws) \<and>
               processRuleset k env n P baseUri uri severity =
                 (case r of
                    Inl e \<Rightarrow> Some (Inl e, P', ws)
                  | Inr acc \<Rightarrow>
                      (case processOwn env baseUri rulesetUri severity ruleset acc of
                         (newRuleset, ws') \<Rightarrow>
                           Some (Inr (Some newRuleset), P', ws @ ws'))))) \<and>
         (\<forall>extended rest acc v.
            findFile env (join env [uri, ''..'']) (target extended) = v \<and> v \<in> P \<longrightarrow>
            processExtends k env n P baseUri uri severity (extended # rest) acc =
              processExtends k env n P baseUri uri severity rest acc)"
proof (intro conjI allI impI)
  show "\<exists>res. processRuleset k env n P baseUri uri severity = Some res"
    using processRuleset_returns[OF fin dom inst fuel] .
next
  fix rulesetUri
  assume "findFile env (join env [baseUri, ''..'']) uri = rulesetUri \<and> rulesetUri \<in> P"
  moreover from fuel have "0 < n" by simp
  ultimately show "processRuleset k env n P baseUri uri severity = Some (Inr None, P, [])"
    using processRuleset_visited by blast
next
  fix rulesetUri ruleset
  assume a: "findFile env (join env [baseUri, ''..'']) uri = rulesetUri \<and>
             rulesetUri \<notin> P \<and> instantiate k env rulesetUri = Some (Inr ruleset)"
  from fuel obtain m where n: "n = Suc m" by (cases n) auto
  from a have f: "findFile env (join env [baseUri, ''..'']) uri = rulesetUri"
    and nv: "rulesetUri \<notin> P" and i: "instantiate k env rulesetUri = Some (Inr ruleset)"
    by simp_all
  from processRuleset_returns[OF fin dom inst fuel, of baseUri uri severity]
  obtain res where res: "processRuleset k env (Suc m) P baseUri uri severity = Some res"
    using n by blast
  let ?loop = "processExtends k env m (insert rulesetUri P) baseUri rulesetUri severity
                 (extendedRulesets ruleset)
                 \<lparr>rules = Map.empty, functionsOf = Map.empty, exceptions = Map.empty\<rparr>"
  from res processRuleset_unfold[OF f nv i, of m severity]
  obtain r P' ws where l: "?loop = Some (r, P', ws)"
    by (cases ?loop) auto
  with processRuleset_unfold[OF f nv i, of m severity] n
  show "\<exists>r P' ws.
          processExtends k env (n - 1) (insert rulesetUri P) baseUri rulesetUri severity
            (extendedRulesets ruleset)
            \<lparr>rules = Map.empty, functionsOf = Map.empty, exceptions = Map.empty\<rparr> =
            Some (r, P', ws) \<and>
          processRuleset k env n P baseUri uri severity =
            (case r of
               Inl e \<Rightarrow> Some (Inl e, P', ws)
             | Inr acc \<Rightarrow>
                 (case processOwn env baseUri rulesetUri severity ruleset acc of
                    (newRuleset, ws') \<Rightarrow>
                      Some (Inr (Some newRuleset), P', ws @ ws')))"
    by (cases r) auto
next
  fix extended rest acc v
  assume "findFile env (join env [uri, ''..'']) (target extended) = v \<and> v \<in> P"
  moreover from fuel have "0 < n" by simp
  ultimately show "processExtends k env n P baseUri uri severity (extended # rest) acc =
                   processExtends k env n P baseUri uri severity rest acc"
    using processExtends_skip by blast
qed

lemma example_instantiate:
  "instantiate (Suc 0) exampleEnv u =
     (case read exampleEnv u of
        Inl e \<Rightarrow> Some (Inl e)
      | Inr v \<Rightarrow> Some (case exampleDocuments u of
                        Some d \<Rightarrow> Inr d
                      | None \<Rightarrow> Inl (Thrown ''invalid ruleset'')))"
  by (simp add: instantiate_def exampleEnv_def createFakeRequire_def member_def
        hasProperty_def objectPrototype_def split: sum.splits)

lemma example_universe:
  "\<forall>u d. instantiate 1 exampleEnv u = Some (Inr d) \<longrightarrow> u \<in> dom exampleDocuments"
  by (auto simp: example_instantiate split: sum.splits option.splits)

lemma example_instantiate_returns: "\<forall>u. instantiate 1 exampleEnv u \<noteq> None"
  by (simp add: example_instantiate split: sum.splits)

lemma example_cycle:
  "processRuleset 1 exampleEnv 10 {} ''/x.yaml'' ''/x.yaml'' None =
     Some (Inr (Some \<lparr>rules = [''y'' \<mapsto> JStr ''from y'', ''x'' \<mapsto> JStr ''from x''],
                       functionsOf = Map.empty, exceptions = Map.empty\<rparr>),
           {''/x.yaml'', ''/y.yaml''}, [])"
  by (simp add: example_defs eval_nat_numeral insert_commute)

theorem cycle_guard_witness:
  "finite (dom exampleDocuments) \<and> card (dom exampleDocuments - {}) < 10 \<and>
   processRuleset 1 exampleEnv 10 {} ''/x.yaml'' ''/x.yaml'' None =
     Some (Inr (Some \<lparr>rules = [''y'' \<mapsto> JStr ''from y'', ''x'' \<mapsto> JStr ''from x''],
                       functionsOf = Map.empty, exceptions = Map.empty\<rparr>),
           {''/x.yaml'', ''/y.yaml''}, []) \<and>
   (\<exists>res. processRuleset 1 exampleEnv 10 {} ''/x.yaml'' ''/x.yaml'' None = Some res)"
proof -
  have fin: "finite (dom exampleDocuments)" by (simp add: exampleDocuments_def)
  have fuel: "card (dom exampleDocuments - {}) < 10" by (simp add: exampleDocuments_def)
  from cycle_guard[OF fin example_universe example_instantiate_returns fuel,
      of "''/x.yaml''" "''/x.yaml''" None] fin fuel example_cycle
  show ?thesis by simp
qed

subsection \<open>The order of merging\<close>

lemma processExtends_append:
  "processExtends k env n P b u s (es1 @ es2) acc =
     (case processExtends k env n P b u s es1 acc of
        None \<Rightarrow> None
      | Some (Inl e, P1, w1) \<Rightarrow> Some (Inl e, P1, w1)
      | Some (Inr acc1, P1, w1) \<Rightarrow>
          (case processExtends k env n P1 b u s es2 acc1 of
             None \<Rightarrow> None
           | Some (r, P2, w2) \<Rightarrow> Some (r, P2, w1 @ w2)))"
proof (induction es1 arbitrary: P acc)
  case Nil
  then show ?case by (simp split: option.splits)
next
  case (Cons e es1)
  show ?case
  proof (cases "processRuleset k env n P u (target e) (Some (parentSeverity s e))")
    case None
    then show ?thesis by simp
  next
    case (Some a)
    obtain x P1 w1 where a: "a = (x, P1, w1)" by (cases a)
    show ?thesis
    proof (cases x)
      case (Inl err)
      with Some a show ?thesis by simp
    next
      case (Inr child)
      with Some a Cons.IH[of P1 "mergeExtended env b (parentSeverity s e) acc child"]
      show ?thesis
        by (simp split: option.splits sum.splits prod.splits)
    qed
  qed
qed

lemma processOwn_rules:
  assumes "processOwn env b u s ruleset acc = (out, ws)" "file_formats ruleset = None"
  shows "rules out =
           (case file_rules ruleset of
              None \<Rightarrow> rules acc
            | Some own \<Rightarrow>
                mergeRules env (rules acc) own
                  (case s of None \<Rightarrow> ''recommended'' | Some c \<Rightarrow> c))"
proof (cases "file_functions ruleset")
  case None
  with assms show ?thesis by (auto simp: processOwn_def Let_def)
next
  case (Some decls)
  obtain r w where rf: "resolveFunctions env (rulesetFunctionsBaseDir env u ruleset) decls Map.empty = (r, w)"
    by (cases "resolveFunctions env (rulesetFunctionsBaseDir env u ruleset) decls Map.empty")
  with assms Some show ?thesis by (auto simp: processOwn_def Let_def)
qed

text \<open>
  Claim C5, as amended. Let the rule merger be last-writer-wins per key. The entries of
  \<^verbatim>\<open>extends\<close> are processed in the order of their declaration, each one completed
  before the next starts. If the last entry resolves to a ruleset (its identity has not
  been visited before, for instance through an earlier entry) and that ruleset has a rule
  under \<open>key\<close>, then after the loop the entry under \<open>key\<close> is the one contributed through
  this last entry, whatever the earlier entries contributed. The document's own rules are
  merged afterwards: when no format filter is applied, an own rule under \<open>key\<close> replaces
  that entry and otherwise the entry stays.
\<close>

theorem later_edge_wins:
  assumes lww: "lastWriterWins (mergeRules env)"
    and before: "processExtends k env n P baseUri rulesetUri severity es acc0 =
                   Some (Inr acc1, P1, w1)"
    and edge: "processRuleset k env n P1 rulesetUri (target extended)
                 (Some (parentSeverity severity extended)) = Some (Inr (Some resolved), P2, w2)"
    and key: "key \<in> dom (rules resolved)"
  shows "\<exists>acc. processExtends k env n P baseUri rulesetUri severity (es @ [extended]) acc0 =
                 Some (Inr acc, P2, w1 @ w2) \<and>
               rules acc key =
                 mergeRules env Map.empty (rules resolved) (parentSeverity severity extended) key \<and>
               (\<forall>ruleset out ws.
                  processOwn env baseUri rulesetUri severity ruleset acc = (out, ws) \<and>
                  file_formats ruleset = None \<longrightarrow>
                  rules out key =
                    (case file_rules ruleset of
                       None \<Rightarrow> rules acc key
                     | Some own \<Rightarrow>
                         if key \<in> dom own
                         then mergeRules env Map.empty own
                                (case severity of None \<Rightarrow> ''recommended'' | Some c \<Rightarrow> c) key
                         else rules acc key))"
proof -
  have L: "\<And>t s sev key. mergeRules env t s sev key =
             (if key \<in> dom s then mergeRules env Map.empty s sev key else t key)"
    using lww unfolding lastWriterWins_def by blast
  let ?sev = "parentSeverity severity extended"
  let ?acc = "mergeExtended env baseUri ?sev acc1 (Some resolved)"
  from edge have one: "processExtends k env n P1 baseUri rulesetUri severity [extended] acc1 =
                         Some (Inr ?acc, P2, w2)"
    by simp
  with before have all: "processExtends k env n P baseUri rulesetUri severity (es @ [extended]) acc0 =
                           Some (Inr ?acc, P2, w1 @ w2)"
    by (simp add: processExtends_append)
  have "rules ?acc key = mergeRules env (rules acc1) (rules resolved) ?sev key"
    by (simp add: mergeExtended_def)
  also from key L[of "rules acc1" "rules resolved" ?sev key]
  have "\<dots> = mergeRules env Map.empty (rules resolved) ?sev key"
    by simp
  finally have entry: "rules ?acc key = mergeRules env Map.empty (rules resolved) ?sev key" .
  have own: "\<forall>ruleset out ws.
               processOwn env baseUri rulesetUri severity ruleset ?acc = (out, ws) \<and>
               file_formats ruleset = None \<longrightarrow>
               rules out key =
                 (case file_rules ruleset of
                    None \<Rightarrow> rules ?acc key
                  | Some own \<Rightarrow>
                      if key \<in> dom own
                      then mergeRules env Map.empty own
                             (case severity of None \<Rightarrow> ''recommended'' | Some c \<Rightarrow> c) key
                      else rules ?acc key)"
  proof (intro allI impI)
    fix ruleset out ws
    assume a: "processOwn env baseUri rulesetUri severity ruleset ?acc = (out, ws) \<and>
               file_formats ruleset = None"
    let ?s = "case severity of None \<Rightarrow> ''recommended'' | Some c \<Rightarrow> c"
    from a processOwn_rules[of env baseUri rulesetUri severity ruleset ?acc out ws]
    have r: "rules out = (case file_rules ruleset of None \<Rightarrow> rules ?acc
                          | Some own \<Rightarrow> mergeRules env (rules ?acc) own ?s)"
      by simp
    show "rules out key =
            (case file_rules ruleset of
               None \<Rightarrow> rules ?acc key
             | Some own \<Rightarrow>
                 if key \<in> dom own then mergeRules env Map.empty own ?s key
                 else rules ?acc key)"
    proof (cases "file_rules ruleset")
      case None
      with r show ?thesis by simp
    next
      case (Some own)
      from L[of "rules ?acc" own ?s key] r Some show ?thesis by simp
    qed
  qed
  from all entry own show ?thesis by blast
qed

lemma example_lastWriterWins: "lastWriterWins (mergeRules exampleEnv)"
  by (auto simp: lastWriterWins_def exampleEnv_def map_add_def split: option.splits)

lemma example_q_edge:
  "processExtends 1 exampleEnv 1 {''/p.yaml''} ''/p.yaml'' ''/p.yaml'' None [Plain ''/q.yaml'']
     \<lparr>rules = Map.empty, functionsOf = Map.empty, exceptions = Map.empty\<rparr> =
   Some (Inr \<lparr>rules = [''r'' \<mapsto> JStr ''from q''], functionsOf = Map.empty,
              exceptions = Map.empty\<rparr>, {''/p.yaml'', ''/q.yaml''}, [])"
  by (simp add: example_defs insert_commute)

lemma example_c_edge:
  "processRuleset 1 exampleEnv 1 {''/p.yaml'', ''/q.yaml''} ''/p.yaml''
     (target (Forced ''/c.yaml'' ''off'')) (Some (parentSeverity None (Forced ''/c.yaml'' ''off''))) =
   Some (Inr (Some \<lparr>rules = [''r'' \<mapsto> JStr ''from c''], functionsOf = Map.empty,
                     exceptions = Map.empty\<rparr>), {''/p.yaml'', ''/q.yaml'', ''/c.yaml''}, [])"
  by (simp add: example_defs insert_commute)

theorem later_edge_wins_witness:
  "lastWriterWins (mergeRules exampleEnv) \<and>
   processExtends 1 exampleEnv 1 {''/p.yaml''} ''/p.yaml'' ''/p.yaml'' None [Plain ''/q.yaml'']
     \<lparr>rules = Map.empty, functionsOf = Map.empty, exceptions = Map.empty\<rparr> =
     Some (Inr \<lparr>rules = [''r'' \<mapsto> JStr ''from q''], functionsOf = Map.empty,
                exceptions = Map.empty\<rparr>, {''/p.yaml'', ''/q.yaml''}, []) \<and>
   (\<exists>acc. processExtends 1 exampleEnv 1 {''/p.yaml''} ''/p.yaml'' ''/p.yaml'' None
             ([Plain ''/q.yaml''] @ [Forced ''/c.yaml'' ''off''])
             \<lparr>rules = Map.empty, functionsOf = Map.empty, exceptions = Map.empty\<rparr> =
           Some (Inr acc, {''/p.yaml'', ''/q.yaml'', ''/c.yaml''}, [] @ []) \<and>
         rules acc ''r'' = Some (JStr ''from c''))"
proof -
  have key: "''r'' \<in> dom (rules \<lparr>rules = [''r'' \<mapsto> JStr ''from c''], functionsOf = Map.empty,
                                   exceptions = Map.empty\<rparr>)"
    by simp
  have m: "mergeRules exampleEnv Map.empty [''r'' \<mapsto> JStr ''from c'']
             (parentSeverity None (Forced ''/c.yaml'' ''off'')) ''r'' = Some (JStr ''from c'')"
    by (simp add: exampleEnv_def)
  from later_edge_wins[OF example_lastWriterWins example_q_edge example_c_edge key] m
  have "\<exists>acc. processExtends 1 exampleEnv 1 {''/p.yaml''} ''/p.yaml'' ''/p.yaml'' None
             ([Plain ''/q.yaml''] @ [Forced ''/c.yaml'' ''off''])
             \<lparr>rules = Map.empty, functionsOf = Map.empty, exceptions = Map.empty\<rparr> =
           Some (Inr acc, {''/p.yaml'', ''/q.yaml'', ''/c.yaml''}, [] @ []) \<and>
         rules acc ''r'' = Some (JStr ''from c'')"
    by auto
  with example_lastWriterWins example_q_edge show ?thesis by blast
qed

text \<open>
  The claim as first stated fails when the later entry has already been visited:
  \<^verbatim>\<open>/a.yaml\<close> extends \<^verbatim>\<open>/b.yaml\<close> and \<^verbatim>\<open>/c.yaml\<close> in that order, both define
  the rule \<^verbatim>\<open>r\<close>, and \<^verbatim>\<open>/b.yaml\<close> itself extends \<^verbatim>\<open>/c.yaml\<close>. The entry for
  \<^verbatim>\<open>/c.yaml\<close> then returns \<^verbatim>\<open>null\<close>, and the rule of \<^verbatim>\<open>/b.yaml\<close> stays.
\<close>

theorem later_edge_counterexample:
  "lastWriterWins (mergeRules exampleEnv) \<and>
   extendedRulesets (the (exampleDocuments ''/a.yaml'')) = [Plain ''/b.yaml'', Plain ''/c.yaml''] \<and>
   processRuleset 1 exampleEnv 3 {} ''/a.yaml'' ''/b.yaml'' (Some ''recommended'') =
     Some (Inr (Some \<lparr>rules = [''r'' \<mapsto> JStr ''from b''], functionsOf = Map.empty,
                       exceptions = Map.empty\<rparr>), {''/b.yaml'', ''/c.yaml''}, []) \<and>
   processRuleset 1 exampleEnv 3 {} ''/a.yaml'' ''/c.yaml'' (Some ''recommended'') =
     Some (Inr (Some \<lparr>rules = [''r'' \<mapsto> JStr ''from c''], functionsOf = Map.empty,
                       exceptions = Map.empty\<rparr>), {''/c.yaml''}, []) \<and>
   processRuleset 1 exampleEnv 3 {} ''/a.yaml'' ''/a.yaml'' None =
     Some (Inr (Some \<lparr>rules = [''r'' \<mapsto> JStr ''from b''], functionsOf = Map.empty,
                       exceptions = Map.empty\<rparr>), {''/a.yaml'', ''/b.yaml'', ''/c.yaml''}, []) \<and>
   JStr ''from b'' \<noteq> JStr ''from c''"
proof (intro conjI)
  show "lastWriterWins (mergeRules exampleEnv)" by (rule example_lastWriterWins)
  show "extendedRulesets (the (exampleDocuments ''/a.yaml'')) = [Plain ''/b.yaml'', Plain ''/c.yaml'']"
    by (simp add: exampleDocuments_def emptyFile_def extendedRulesets_def)
  show "processRuleset 1 exampleEnv 3 {} ''/a.yaml'' ''/b.yaml'' (Some ''recommended'') =
     Some (Inr (Some \<lparr>rules = [''r'' \<mapsto> JStr ''from b''], functionsOf = Map.empty,
                       exceptions = Map.empty\<rparr>), {''/b.yaml'', ''/c.yaml''}, [])"
    by (simp add: example_defs numeral_3_eq_3 insert_commute)
  show "processRuleset 1 exampleEnv 3 {} ''/a.yaml'' ''/c.yaml'' (Some ''recommended'') =
     Some (Inr (Some \<lparr>rules = [''r'' \<mapsto> JStr ''from c''], functionsOf = Map.empty,
                       exceptions = Map.empty\<rparr>), {''/c.yaml''}, [])"
    by (simp add: example_defs numeral_3_eq_3 insert_commute)
  show "processRuleset 1 exampleEnv 3 {} ''/a.yaml'' ''/a.yaml'' None =
     Some (Inr (Some \<lparr>rules = [''r'' \<mapsto> JStr ''from b''], functionsOf = Map.empty,
                       exceptions = Map.empty\<rparr>), {''/a.yaml'', ''/b.yaml'', ''/c.yaml''}, [])"
    by (simp add: example_defs numeral_3_eq_3 insert_commute)
  show "JStr ''from b'' \<noteq> JStr ''from c''" by simp
qed

subsection \<open>Severity inheritance\<close>

text \<open>
  Claim C1. The severity handed to the child of an \<^verbatim>\<open>extends\<close> entry: the entry's
  own severity when the caller's severity is undefined; the caller's severity whenever
  it is defined, whatever the entry says; for an entry without a severity the caller's
  severity when defined and \<^verbatim>\<open>recommended\<close> otherwise. This holds of every entry
  that is processed, at whatever position of the list: once the entries before it are
  done, the entry is the call of \<^verbatim>\<open>processRuleset\<close> for its target with exactly
  that severity, what the call returns is merged under the same severity, and the
  entries after it follow under the caller's severity unchanged. The list is the whole
  \<^verbatim>\<open>extends\<close> field of the document, and the caller's severity is the one
  \<^verbatim>\<open>processRuleset\<close> was called with.
\<close>

theorem effective_severity:
  "(severity = None \<longrightarrow> parentSeverity severity (Forced uri s) = s) \<and>
   (severity = Some c \<longrightarrow> parentSeverity severity extended = c) \<and>
   parentSeverity severity (Plain uri) =
     (case severity of Some c' \<Rightarrow> c' | None \<Rightarrow> ''recommended'') \<and>
   processExtends k env n P baseUri rulesetUri severity (before @ extended # rest) acc =
     (case processExtends k env n P baseUri rulesetUri severity before acc of
        None \<Rightarrow> None
      | Some (Inl e, P1, w1) \<Rightarrow> Some (Inl e, P1, w1)
      | Some (Inr acc1, P1, w1) \<Rightarrow>
          (case processRuleset k env n P1 rulesetUri (target extended)
                  (Some (parentSeverity severity extended)) of
             None \<Rightarrow> None
           | Some (Inl e, P2, w2) \<Rightarrow> Some (Inl e, P2, w1 @ w2)
           | Some (Inr child, P2, w2) \<Rightarrow>
               (case processExtends k env n P2 baseUri rulesetUri severity rest
                       (mergeExtended env baseUri (parentSeverity severity extended) acc1 child) of
                  None \<Rightarrow> None
                | Some (r, P3, w3) \<Rightarrow> Some (r, P3, w1 @ w2 @ w3)))) \<and>
   (findFile env (join env [baseUri, ''..'']) uri \<notin> P \<and>
    instantiate k env (findFile env (join env [baseUri, ''..'']) uri) = Some (Inr ruleset) \<longrightarrow>
    processRuleset k env (Suc n) P baseUri uri severity =
      (case processExtends k env n (insert (findFile env (join env [baseUri, ''..'']) uri) P)
              baseUri (findFile env (join env [baseUri, ''..'']) uri) severity
              (extendedRulesets ruleset)
              \<lparr>rules = Map.empty, functionsOf = Map.empty, exceptions = Map.empty\<rparr> of
         None \<Rightarrow> None
       | Some (Inl e, P', ws) \<Rightarrow> Some (Inl e, P', ws)
       | Some (Inr acc', P', ws) \<Rightarrow>
           (case processOwn env baseUri (findFile env (join env [baseUri, ''..'']) uri) severity
                   ruleset acc' of
              (newRuleset, ws') \<Rightarrow> Some (Inr (Some newRuleset), P', ws @ ws'))))"
proof (intro conjI)
  show "severity = None \<longrightarrow> parentSeverity severity (Forced uri s) = s" by simp
  show "severity = Some c \<longrightarrow> parentSeverity severity extended = c"
    by (cases extended) simp_all
  show "parentSeverity severity (Plain uri) =
          (case severity of Some c' \<Rightarrow> c' | None \<Rightarrow> ''recommended'')"
    by (simp split: option.splits)
next
  have one: "\<And>P1 acc1. processExtends k env n P1 baseUri rulesetUri severity (extended # rest) acc1 =
          (case processRuleset k env n P1 rulesetUri (target extended)
                  (Some (parentSeverity severity extended)) of
             None \<Rightarrow> None
           | Some (Inl e, P2, w2) \<Rightarrow> Some (Inl e, P2, w2)
           | Some (Inr child, P2, w2) \<Rightarrow>
               (case processExtends k env n P2 baseUri rulesetUri severity rest
                       (mergeExtended env baseUri (parentSeverity severity extended) acc1 child) of
                  None \<Rightarrow> None
                | Some (r, P3, w3) \<Rightarrow> Some (r, P3, w2 @ w3)))"
    by simp
  show "processExtends k env n P baseUri rulesetUri severity (before @ extended # rest) acc =
     (case processExtends k env n P baseUri rulesetUri severity before acc of
        None \<Rightarrow> None
      | Some (Inl e, P1, w1) \<Rightarrow> Some (Inl e, P1, w1)
      | Some (Inr acc1, P1, w1) \<Rightarrow>
          (case processRuleset k env n P1 rulesetUri (target extended)
                  (Some (parentSeverity severity extended)) of
             None \<Rightarrow> None
           | Some (Inl e, P2, w2) \<Rightarrow> Some (Inl e, P2, w1 @ w2)
           | Some (Inr child, P2, w2) \<Rightarrow>
               (case processExtends k env n P2 baseUri rulesetUri severity rest
                       (mergeExtended env baseUri (parentSeverity severity extended) acc1 child) of
                  None \<Rightarrow> None
                | Some (r, P3, w3) \<Rightarrow> Some (r, P3, w1 @ w2 @ w3))))"
    unfolding processExtends_append[of k env n P baseUri rulesetUri severity before "extended # rest" acc]
      one
    by (simp split: option.splits sum.splits prod.splits)
next
  show "findFile env (join env [baseUri, ''..'']) uri \<notin> P \<and>
    instantiate k env (findFile env (join env [baseUri, ''..'']) uri) = Some (Inr ruleset) \<longrightarrow>
    processRuleset k env (Suc n) P baseUri uri severity =
      (case processExtends k env n (insert (findFile env (join env [baseUri, ''..'']) uri) P)
              baseUri (findFile env (join env [baseUri, ''..'']) uri) severity
              (extendedRulesets ruleset)
              \<lparr>rules = Map.empty, functionsOf = Map.empty, exceptions = Map.empty\<rparr> of
         None \<Rightarrow> None
       | Some (Inl e, P', ws) \<Rightarrow> Some (Inl e, P', ws)
       | Some (Inr acc', P', ws) \<Rightarrow>
           (case processOwn env baseUri (findFile env (join env [baseUri, ''..'']) uri) severity
                   ruleset acc' of
              (newRuleset, ws') \<Rightarrow> Some (Inr (Some newRuleset), P', ws @ ws')))"
    using processRuleset_unfold[OF refl, of env baseUri uri P k ruleset n severity] by blast
qed

theorem effective_severity_witness:
  "parentSeverity None (Forced ''/c.yaml'' ''all'') = ''all'' \<and>
   parentSeverity (Some ''off'') (Forced ''/c.yaml'' ''all'') = ''off'' \<and>
   parentSeverity (Some ''off'') (Plain ''/c.yaml'') = ''off'' \<and>
   parentSeverity None (Plain ''/c.yaml'') = ''recommended'' \<and>
   (\<exists>acc. processExtends 1 severityEnv 1 {''/p.yaml''} ''/p.yaml'' ''/p.yaml'' None
            ([Forced ''/q.yaml'' ''off''] @ Forced ''/c.yaml'' ''all'' # [])
            \<lparr>rules = Map.empty, functionsOf = Map.empty, exceptions = Map.empty\<rparr> =
            Some (Inr acc, {''/p.yaml'', ''/q.yaml'', ''/c.yaml''}, []) \<and>
          rules acc ''r'' = Some (JArr [JStr ''all'', JArr [JStr ''all'', JStr ''from c'']]))"
proof -
  note t1 = effective_severity[where severity = None and uri = "''/c.yaml''" and s = "''all''"
      and c = "''off''" and extended = "Forced ''/c.yaml'' ''all''" and k = 1
      and env = severityEnv and n = 1 and P = "{''/p.yaml''}" and baseUri = "''/p.yaml''"
      and rulesetUri = "''/p.yaml''" and before = "[Forced ''/q.yaml'' ''off'']" and rest = "[]"
      and acc = "\<lparr>rules = Map.empty, functionsOf = Map.empty, exceptions = Map.empty\<rparr>"]
  note t2 = effective_severity[where severity = "Some ''off''" and uri = "''/c.yaml''"
      and s = "''all''" and c = "''off''" and extended = "Forced ''/c.yaml'' ''all''"]
  from t1 have v1: "parentSeverity None (Forced ''/c.yaml'' ''all'') = ''all''"
    and v4: "parentSeverity None (Plain ''/c.yaml'') = ''recommended''"
    by simp_all
  from t2 have v2: "parentSeverity (Some ''off'') (Forced ''/c.yaml'' ''all'') = ''off''"
    and v3: "parentSeverity (Some ''off'') (Plain ''/c.yaml'') = ''off''"
    by simp_all
  from t1[THEN conjunct2, THEN conjunct2, THEN conjunct2, THEN conjunct1] have eq:
    "processExtends 1 severityEnv 1 {''/p.yaml''} ''/p.yaml'' ''/p.yaml'' None
       ([Forced ''/q.yaml'' ''off''] @ Forced ''/c.yaml'' ''all'' # [])
       \<lparr>rules = Map.empty, functionsOf = Map.empty, exceptions = Map.empty\<rparr> =
     (case processExtends 1 severityEnv 1 {''/p.yaml''} ''/p.yaml'' ''/p.yaml'' None
             [Forced ''/q.yaml'' ''off'']
             \<lparr>rules = Map.empty, functionsOf = Map.empty, exceptions = Map.empty\<rparr> of
        None \<Rightarrow> None
      | Some (Inl e, P1, w1) \<Rightarrow> Some (Inl e, P1, w1)
      | Some (Inr acc1, P1, w1) \<Rightarrow>
          (case processRuleset 1 severityEnv 1 P1 ''/p.yaml'' (target (Forced ''/c.yaml'' ''all''))
                  (Some (parentSeverity None (Forced ''/c.yaml'' ''all''))) of
             None \<Rightarrow> None
           | Some (Inl e, P2, w2) \<Rightarrow> Some (Inl e, P2, w1 @ w2)
           | Some (Inr child, P2, w2) \<Rightarrow>
               (case processExtends 1 severityEnv 1 P2 ''/p.yaml'' ''/p.yaml'' None []
                       (mergeExtended severityEnv ''/p.yaml''
                          (parentSeverity None (Forced ''/c.yaml'' ''all'')) acc1 child) of
                  None \<Rightarrow> None
                | Some (r, P3, w3) \<Rightarrow> Some (r, P3, w1 @ w2 @ w3))))" .
  have "\<exists>acc. processExtends 1 severityEnv 1 {''/p.yaml''} ''/p.yaml'' ''/p.yaml'' None
            ([Forced ''/q.yaml'' ''off''] @ Forced ''/c.yaml'' ''all'' # [])
            \<lparr>rules = Map.empty, functionsOf = Map.empty, exceptions = Map.empty\<rparr> =
            Some (Inr acc, {''/p.yaml'', ''/q.yaml'', ''/c.yaml''}, []) \<and>
          rules acc ''r'' = Some (JArr [JStr ''all'', JArr [JStr ''all'', JStr ''from c'']])"
    unfolding eq by (simp add: example_defs severityEnv_def insert_commute)
  with v1 v2 v3 v4 show ?thesis by blast
qed

subsection \<open>The top-level reader\<close>

lemma addAll_Cons:
  "addAll (x # s) xs = x # addAll s (filter (\<lambda>y. y \<noteq> x) xs)"
  by (induction xs arbitrary: s) auto

lemma newSet_Cons: "newSet (x # xs) = x # newSet (filter (\<lambda>y. y \<noteq> x) xs)"
  using addAll_Cons[of x "[]" xs] by (simp add: newSet_def)

lemma addAll_set: "set (addAll s xs) = set s \<union> set xs"
  by (induction xs arbitrary: s) auto

lemma addAll_distinct: "distinct s \<Longrightarrow> distinct (addAll s xs)"
  by (induction xs arbitrary: s) auto

lemma newSet_distinct: "distinct (newSet xs) \<and> set (newSet xs) = set xs"
  by (simp add: newSet_def addAll_set addAll_distinct)

lemma readUris_abort:
  assumes ok: "\<forall>x\<in>set before. \<exists>r P ws. processRuleset k env n {} x x None = Some (Inr r, P, ws)"
    and bad: "processRuleset k env n {} uri uri None = Some (Inl e, P, ws)"
  shows "readUris k env n (before @ uri # rest) base =
           Some (Inl e,
                 concat (map (\<lambda>x. case processRuleset k env n {} x x None of
                                     None \<Rightarrow> [] | Some (r, P, w) \<Rightarrow> w) before) @ ws)"
  using ok
proof (induction before arbitrary: base)
  case Nil
  with bad show ?case by simp
next
  case (Cons x before)
  from Cons.prems obtain r P' w where
    x: "processRuleset k env n {} x x None = Some (Inr r, P', w)" by auto
  from Cons.prems have "\<forall>x\<in>set before. \<exists>r P ws. processRuleset k env n {} x x None = Some (Inr r, P, ws)"
    by simp
  from Cons.IH[OF this, of "case r of None \<Rightarrow> base | Some r' \<Rightarrow> assign base r'"] x
  show ?case by simp
qed

lemma readUris_all:
  assumes ok: "\<forall>x\<in>set us. \<exists>r P ws. processRuleset k env n {} x x None = Some (Inr r, P, ws)"
  shows "readUris k env n us base =
           Some (Inr (foldl (\<lambda>acc x. case processRuleset k env n {} x x None of
                                        Some (Inr (Some r), P, w) \<Rightarrow> assign acc r
                                      | _ \<Rightarrow> acc) base us),
                 concat (map (\<lambda>x. case processRuleset k env n {} x x None of
                                     None \<Rightarrow> [] | Some (r, P, w) \<Rightarrow> w) us))"
  using ok
proof (induction us arbitrary: base)
  case Nil
  then show ?case by simp
next
  case (Cons x us)
  from Cons.prems obtain r P' w where
    x: "processRuleset k env n {} x x None = Some (Inr r, P', w)" by auto
  from Cons.prems have "\<forall>x\<in>set us. \<exists>r P ws. processRuleset k env n {} x x None = Some (Inr r, P, ws)"
    by simp
  from Cons.IH[OF this, of "case r of None \<Rightarrow> base | Some r' \<Rightarrow> assign base r'"] x
  show ?case by (cases r) simp_all
qed

text \<open>
  Claim C2, as amended. The URIs of the deduplicated list are processed in order, each
  from an empty set \<^verbatim>\<open>processedRulesets\<close>. When the URIs before \<open>uri\<close> resolve and
  \<open>uri\<close> raises a fatal error, \<^verbatim>\<open>readRuleset\<close> fails with that error; the warnings
  printed are those of the URIs before it and of \<open>uri\<close>, so no later URI is processed.
  When every URI resolves, the result is the union of all the resolved rulesets, taken
  in the order of the list.
\<close>

theorem readRuleset_outcome:
  "(newSet uris = before @ uri # rest \<and>
    (\<forall>x\<in>set before. \<exists>r P ws. processRuleset k env n {} x x None = Some (Inr r, P, ws)) \<and>
    processRuleset k env n {} uri uri None = Some (Inl e, P, ws) \<longrightarrow>
      readRuleset k env n (ManyUris uris) =
        Some (Inl e,
              concat (map (\<lambda>x. case processRuleset k env n {} x x None of
                                  None \<Rightarrow> [] | Some (r, P, w) \<Rightarrow> w) before) @ ws)) \<and>
   ((\<forall>x\<in>set (newSet uris). \<exists>r P ws. processRuleset k env n {} x x None = Some (Inr r, P, ws)) \<longrightarrow>
      readRuleset k env n (ManyUris uris) =
        Some (Inr (foldl (\<lambda>acc x. case processRuleset k env n {} x x None of
                                     Some (Inr (Some r), P, w) \<Rightarrow> assign acc r
                                   | _ \<Rightarrow> acc)
                     \<lparr>rules = Map.empty, functionsOf = Map.empty, exceptions = Map.empty\<rparr>
                     (newSet uris)),
              concat (map (\<lambda>x. case processRuleset k env n {} x x None of
                                  None \<Rightarrow> [] | Some (r, P, w) \<Rightarrow> w) (newSet uris))))"
proof (intro conjI impI)
  assume a: "newSet uris = before @ uri # rest \<and>
    (\<forall>x\<in>set before. \<exists>r P ws. processRuleset k env n {} x x None = Some (Inr r, P, ws)) \<and>
    processRuleset k env n {} uri uri None = Some (Inl e, P, ws)"
  then have ok: "\<forall>x\<in>set before. \<exists>r P ws. processRuleset k env n {} x x None = Some (Inr r, P, ws)"
    and bad: "processRuleset k env n {} uri uri None = Some (Inl e, P, ws)"
    and us: "newSet uris = before @ uri # rest" by simp_all
  from readUris_abort[OF ok bad, of rest] us
  show "readRuleset k env n (ManyUris uris) =
        Some (Inl e,
              concat (map (\<lambda>x. case processRuleset k env n {} x x None of
                                  None \<Rightarrow> [] | Some (r, P, w) \<Rightarrow> w) before) @ ws)"
    by (simp add: readRuleset_def)
next
  assume ok: "\<forall>x\<in>set (newSet uris). \<exists>r P ws. processRuleset k env n {} x x None = Some (Inr r, P, ws)"
  from readUris_all[OF ok]
  show "readRuleset k env n (ManyUris uris) =
        Some (Inr (foldl (\<lambda>acc x. case processRuleset k env n {} x x None of
                                     Some (Inr (Some r), P, w) \<Rightarrow> assign acc r
                                   | _ \<Rightarrow> acc)
                     \<lparr>rules = Map.empty, functionsOf = Map.empty, exceptions = Map.empty\<rparr>
                     (newSet uris)),
              concat (map (\<lambda>x. case processRuleset k env n {} x x None of
                                  None \<Rightarrow> [] | Some (r, P, w) \<Rightarrow> w) (newSet uris)))"
    by (simp add: readRuleset_def)
qed

lemma example_bad:
  "processRuleset 1 exampleEnv 1 {} ''/bad.yaml'' ''/bad.yaml'' None =
     Some (Inl (Thrown ''ENOENT''), {''https://unpkg.com//bad.yaml''}, [])"
  by (simp add: example_defs)

lemma example_c:
  "processRuleset 1 exampleEnv 1 {} ''/c.yaml'' ''/c.yaml'' None =
     Some (Inr (Some \<lparr>rules = [''r'' \<mapsto> JStr ''from c''], functionsOf = Map.empty,
                       exceptions = Map.empty\<rparr>), {''/c.yaml''}, [])"
  by (simp add: example_defs)

lemma example_q:
  "processRuleset 1 exampleEnv 1 {} ''/q.yaml'' ''/q.yaml'' None =
     Some (Inr (Some \<lparr>rules = [''r'' \<mapsto> JStr ''from q''], functionsOf = Map.empty,
                       exceptions = Map.empty\<rparr>), {''/q.yaml''}, [])"
  by (simp add: example_defs)

theorem readRuleset_outcome_witness:
  "newSet [''/c.yaml'', ''/bad.yaml'', ''/q.yaml''] = [''/c.yaml''] @ ''/bad.yaml'' # [''/q.yaml''] \<and>
   processRuleset 1 exampleEnv 1 {} ''/bad.yaml'' ''/bad.yaml'' None =
     Some (Inl (Thrown ''ENOENT''), {''https://unpkg.com//bad.yaml''}, []) \<and>
   readRuleset 1 exampleEnv 1 (ManyUris [''/c.yaml'', ''/bad.yaml'', ''/q.yaml'']) =
     Some (Inl (Thrown ''ENOENT''), []) \<and>
   newSet [''/c.yaml'', ''/q.yaml'', ''/c.yaml''] = [''/c.yaml'', ''/q.yaml''] \<and>
   readRuleset 1 exampleEnv 1 (ManyUris [''/c.yaml'', ''/q.yaml'', ''/c.yaml'']) =
     Some (Inr (assign (assign \<lparr>rules = Map.empty, functionsOf = Map.empty,
                                 exceptions = Map.empty\<rparr>
                          \<lparr>rules = [''r'' \<mapsto> JStr ''from c''], functionsOf = Map.empty,
                             exceptions = Map.empty\<rparr>)
                  \<lparr>rules = [''r'' \<mapsto> JStr ''from q''], functionsOf = Map.empty,
                     exceptions = Map.empty\<rparr>), [])"
proof -
  have n1: "newSet [''/c.yaml'', ''/bad.yaml'', ''/q.yaml''] = [''/c.yaml''] @ ''/bad.yaml'' # [''/q.yaml'']"
    by (simp add: newSet_def)
  have n2: "newSet [''/c.yaml'', ''/q.yaml'', ''/c.yaml''] = [''/c.yaml'', ''/q.yaml'']"
    by (simp add: newSet_def)
  have ok1: "\<forall>x\<in>set [''/c.yaml'']. \<exists>r P ws. processRuleset 1 exampleEnv 1 {} x x None = Some (Inr r, P, ws)"
    using example_c by (simp del: processRuleset.simps One_nat_def)
  have ok2: "\<forall>x\<in>set (newSet [''/c.yaml'', ''/q.yaml'', ''/c.yaml'']).
               \<exists>r P ws. processRuleset 1 exampleEnv 1 {} x x None = Some (Inr r, P, ws)"
    using example_c example_q by (simp add: n2 del: processRuleset.simps One_nat_def)
  from readRuleset_outcome[of "[''/c.yaml'', ''/bad.yaml'', ''/q.yaml'']" "[''/c.yaml'']"
         "''/bad.yaml''" "[''/q.yaml'']" 1 exampleEnv 1 "Thrown ''ENOENT''"
         "{''https://unpkg.com//bad.yaml''}" "[]"]
       n1 ok1 example_bad
  have a: "readRuleset 1 exampleEnv 1 (ManyUris [''/c.yaml'', ''/bad.yaml'', ''/q.yaml'']) =
             Some (Inl (Thrown ''ENOENT''), [])"
    by (simp add: example_c del: processRuleset.simps One_nat_def)
  from readRuleset_outcome[of "[''/c.yaml'', ''/q.yaml'', ''/c.yaml'']" "[]" "''/c.yaml''" "[]"
         1 exampleEnv 1 "Thrown []" "{}" "[]"] ok2
  have b: "readRuleset 1 exampleEnv 1 (ManyUris [''/c.yaml'', ''/q.yaml'', ''/c.yaml'']) =
     Some (Inr (assign (assign \<lparr>rules = Map.empty, functionsOf = Map.empty,
                                 exceptions = Map.empty\<rparr>
                          \<lparr>rules = [''r'' \<mapsto> JStr ''from c''], functionsOf = Map.empty,
                             exceptions = Map.empty\<rparr>)
                  \<lparr>rules = [''r'' \<mapsto> JStr ''from q''], functionsOf = Map.empty,
                     exceptions = Map.empty\<rparr>), [])"
    by (simp add: n2 example_c example_q del: processRuleset.simps One_nat_def)
  from n1 n2 a b example_bad show ?thesis by blast
qed

text \<open>
  The claim as first stated fails: \<^verbatim>\<open>/c.yaml\<close> resolves on its own, but a request
  for \<^verbatim>\<open>/bad.yaml\<close> and \<^verbatim>\<open>/c.yaml\<close> fails with the error of the first, and
  nothing of \<^verbatim>\<open>/c.yaml\<close> is returned.
\<close>

theorem readRuleset_counterexample:
  "processRuleset 1 exampleEnv 1 {} ''/c.yaml'' ''/c.yaml'' None =
     Some (Inr (Some \<lparr>rules = [''r'' \<mapsto> JStr ''from c''], functionsOf = Map.empty,
                       exceptions = Map.empty\<rparr>), {''/c.yaml''}, []) \<and>
   readRuleset 1 exampleEnv 1 (ManyUris [''/bad.yaml'', ''/c.yaml'']) =
     Some (Inl (Thrown ''ENOENT''), [])"
proof
  show "processRuleset 1 exampleEnv 1 {} ''/c.yaml'' ''/c.yaml'' None =
     Some (Inr (Some \<lparr>rules = [''r'' \<mapsto> JStr ''from c''], functionsOf = Map.empty,
                       exceptions = Map.empty\<rparr>), {''/c.yaml''}, [])"
    by (rule example_c)
  show "readRuleset 1 exampleEnv 1 (ManyUris [''/bad.yaml'', ''/c.yaml'']) =
     Some (Inl (Thrown ''ENOENT''), [])"
    by (simp add: example_defs readRuleset_def newSet_def)
qed


lemma readUris_untouched:
  assumes sel: "\<And>b r. sel (assign b r) = sel b ++ sel r"
  shows "readUris k env n us base = Some (Inr out, ws) \<Longrightarrow>
         (\<forall>x\<in>set us. \<forall>r P w. processRuleset k env n {} x x None = Some (Inr (Some r), P, w) \<longrightarrow>
            key \<notin> dom (sel r)) \<Longrightarrow>
         sel out key = sel base key"
proof (induction us arbitrary: base ws)
  case Nil
  then show ?case by simp
next
  case (Cons x us)
  from Cons.prems(1) obtain res P' w where
    x: "processRuleset k env n {} x x None = Some (Inr res, P', w)"
    by (auto split: option.splits sum.splits prod.splits)
  let ?base = "case res of None \<Rightarrow> base | Some r \<Rightarrow> assign base r"
  from Cons.prems(1) x obtain ws' where
    rest: "readUris k env n us ?base = Some (Inr out, ws')"
    by (auto split: option.splits)
  from Cons.prems(2) have
    "\<forall>x\<in>set us. \<forall>r P w. processRuleset k env n {} x x None = Some (Inr (Some r), P, w) \<longrightarrow>
       key \<notin> dom (sel r)" by simp
  from Cons.IH[OF rest this] have out: "sel out key = sel ?base key" .
  show ?case
  proof (cases res)
    case None
    with out show ?thesis by simp
  next
    case (Some r)
    with x Cons.prems(2) have "key \<notin> dom (sel r)" by simp
    with out Some sel[of base r] show ?thesis by (simp add: map_add_def domIff)
  qed
qed

lemma readUris_last:
  assumes sel: "\<And>b r. sel (assign b r) = sel b ++ sel r"
    and uri: "processRuleset k env n {} uri uri None = Some (Inr (Some r), P, w)"
    and key: "key \<in> dom (sel r)"
    and rest: "\<forall>x\<in>set rest. \<forall>r' P' w'.
                 processRuleset k env n {} x x None = Some (Inr (Some r'), P', w') \<longrightarrow>
                 key \<notin> dom (sel r')"
  shows "readUris k env n (before @ uri # rest) base = Some (Inr out, ws) \<Longrightarrow>
         sel out key = sel r key"
proof (induction before arbitrary: base ws)
  case Nil
  with uri obtain ws' where
    "readUris k env n rest (assign base r) = Some (Inr out, ws')"
    by (auto split: option.splits)
  from readUris_untouched[of sel, OF sel this rest] have "sel out key = sel (assign base r) key" .
  with key sel[of base r] show ?case by (auto simp: map_add_def split: option.splits)
next
  case (Cons x before)
  from Cons.prems obtain res P' w' where
    x: "processRuleset k env n {} x x None = Some (Inr res, P', w')"
    by (auto split: option.splits sum.splits prod.splits)
  with Cons.prems obtain ws' where
    "readUris k env n (before @ uri # rest)
       (case res of None \<Rightarrow> base | Some r \<Rightarrow> assign base r) = Some (Inr out, ws')"
    by (auto split: option.splits)
  from Cons.IH[OF this] show ?case .
qed

text \<open>
  Claim C9. The list that \<^verbatim>\<open>readRuleset\<close> iterates has the elements of the
  request, each once and in the order of their first occurrence. When the request succeeds and a URI of that list contributes a
  rule, a function or an exception under \<open>key\<close>, and no URI after it in the list does,
  the returned ruleset holds that URI's entry under \<open>key\<close>, whatever the URIs before it
  contributed.
\<close>

theorem last_uri_wins:
  assumes read: "readRuleset k env n (ManyUris uris) = Some (Inr out, ws)"
    and pos: "newSet uris = before @ uri # rest"
    and uri: "processRuleset k env n {} uri uri None = Some (Inr (Some r), P, w)"
  shows "distinct (newSet uris) \<and> set (newSet uris) = set uris \<and>
         (\<forall>x xs. newSet (x # xs) = x # newSet (filter (\<lambda>y. y \<noteq> x) xs)) \<and>
         (key \<in> dom (rules r) \<and>
          (\<forall>x\<in>set rest. \<forall>r' P' w'.
             processRuleset k env n {} x x None = Some (Inr (Some r'), P', w') \<longrightarrow>
             key \<notin> dom (rules r')) \<longrightarrow>
          rules out key = rules r key) \<and>
         (key \<in> dom (functionsOf r) \<and>
          (\<forall>x\<in>set rest. \<forall>r' P' w'.
             processRuleset k env n {} x x None = Some (Inr (Some r'), P', w') \<longrightarrow>
             key \<notin> dom (functionsOf r')) \<longrightarrow>
          functionsOf out key = functionsOf r key) \<and>
         (key \<in> dom (exceptions r) \<and>
          (\<forall>x\<in>set rest. \<forall>r' P' w'.
             processRuleset k env n {} x x None = Some (Inr (Some r'), P', w') \<longrightarrow>
             key \<notin> dom (exceptions r')) \<longrightarrow>
          exceptions out key = exceptions r key)"
proof -
  from read pos have run:
    "readUris k env n (before @ uri # rest)
       \<lparr>rules = Map.empty, functionsOf = Map.empty, exceptions = Map.empty\<rparr> = Some (Inr out, ws)"
    by (simp add: readRuleset_def)
  have s1: "\<And>b r. rules (assign b r) = rules b ++ rules r" by (simp add: assign_def)
  have s2: "\<And>b r. functionsOf (assign b r) = functionsOf b ++ functionsOf r"
    by (simp add: assign_def)
  have s3: "\<And>b r. exceptions (assign b r) = exceptions b ++ exceptions r"
    by (simp add: assign_def)
  have "key \<in> dom (rules r) \<and>
          (\<forall>x\<in>set rest. \<forall>r' P' w'.
             processRuleset k env n {} x x None = Some (Inr (Some r'), P', w') \<longrightarrow>
             key \<notin> dom (rules r')) \<longrightarrow>
          rules out key = rules r key"
    using readUris_last[of rules, OF s1 uri _ _ run] by blast
  moreover have "key \<in> dom (functionsOf r) \<and>
          (\<forall>x\<in>set rest. \<forall>r' P' w'.
             processRuleset k env n {} x x None = Some (Inr (Some r'), P', w') \<longrightarrow>
             key \<notin> dom (functionsOf r')) \<longrightarrow>
          functionsOf out key = functionsOf r key"
    using readUris_last[of functionsOf, OF s2 uri _ _ run] by blast
  moreover have "key \<in> dom (exceptions r) \<and>
          (\<forall>x\<in>set rest. \<forall>r' P' w'.
             processRuleset k env n {} x x None = Some (Inr (Some r'), P', w') \<longrightarrow>
             key \<notin> dom (exceptions r')) \<longrightarrow>
          exceptions out key = exceptions r key"
    using readUris_last[of exceptions, OF s3 uri _ _ run] by blast
  moreover have "\<forall>x xs. newSet (x # xs) = x # newSet (filter (\<lambda>y. y \<noteq> x) xs)"
    using newSet_Cons by blast
  ultimately show ?thesis using newSet_distinct[of uris] by blast
qed

lemma example_read_cqc:
  "readRuleset 1 exampleEnv 1 (ManyUris [''/c.yaml'', ''/q.yaml'', ''/c.yaml'']) =
     Some (Inr \<lparr>rules = [''r'' \<mapsto> JStr ''from q''], functionsOf = Map.empty,
                exceptions = Map.empty\<rparr>, [])"
  by (simp add: example_defs readRuleset_def newSet_def assign_def)

theorem last_uri_wins_witness:
  "readRuleset 1 exampleEnv 1 (ManyUris [''/c.yaml'', ''/q.yaml'', ''/c.yaml'']) =
     Some (Inr \<lparr>rules = [''r'' \<mapsto> JStr ''from q''], functionsOf = Map.empty,
                exceptions = Map.empty\<rparr>, []) \<and>
   newSet [''/c.yaml'', ''/q.yaml'', ''/c.yaml''] = [''/c.yaml''] @ ''/q.yaml'' # [] \<and>
   processRuleset 1 exampleEnv 1 {} ''/c.yaml'' ''/c.yaml'' None =
     Some (Inr (Some \<lparr>rules = [''r'' \<mapsto> JStr ''from c''], functionsOf = Map.empty,
                       exceptions = Map.empty\<rparr>), {''/c.yaml''}, []) \<and>
   processRuleset 1 exampleEnv 1 {} ''/q.yaml'' ''/q.yaml'' None =
     Some (Inr (Some \<lparr>rules = [''r'' \<mapsto> JStr ''from q''], functionsOf = Map.empty,
                       exceptions = Map.empty\<rparr>), {''/q.yaml''}, []) \<and>
   rules \<lparr>rules = [''r'' \<mapsto> JStr ''from q''], functionsOf = Map.empty,
          exceptions = Map.empty\<rparr> ''r'' = Some (JStr ''from q'')"
proof -
  have pos: "newSet [''/c.yaml'', ''/q.yaml'', ''/c.yaml''] = [''/c.yaml''] @ ''/q.yaml'' # []"
    by (simp add: newSet_def)
  from last_uri_wins[OF example_read_cqc pos example_q, of "''r''"]
  have "rules \<lparr>rules = [''r'' \<mapsto> JStr ''from q''], functionsOf = Map.empty,
               exceptions = Map.empty\<rparr> ''r'' = Some (JStr ''from q'')"
    by simp
  with example_read_cqc pos example_c example_q show ?thesis by blast
qed

subsection \<open>Custom functions\<close>


lemma resolveFunctions_result:
  "\<exists>tbl. resolveFunctions env dir decls t0 =
           (tbl,
            concat (map (\<lambda>d. case readFile env (findFile env dir (''./'' @ fnName d @ ''.js'')) of
                                Inl ex \<Rightarrow> [warning (fnName d) ex]
                              | Inr body \<Rightarrow> []) decls)) \<and>
         dom tbl = dom t0 \<union>
           {fnName d | d. d \<in> set decls \<and>
              (\<exists>body. readFile env (findFile env dir (''./'' @ fnName d @ ''.js'')) = Inr body)}"
proof (induction decls arbitrary: t0)
  case Nil
  then show ?case by simp
next
  case (Cons d decls)
  let ?src = "findFile env dir (''./'' @ fnName d @ ''.js'')"
  let ?ws = "concat (map (\<lambda>d. case readFile env (findFile env dir (''./'' @ fnName d @ ''.js'')) of
                                Inl ex \<Rightarrow> [warning (fnName d) ex]
                              | Inr body \<Rightarrow> []) decls)"
  let ?ok = "{fnName d | d. d \<in> set decls \<and>
              (\<exists>body. readFile env (findFile env dir (''./'' @ fnName d @ ''.js'')) = Inr body)}"
  show ?case
  proof (cases "readFile env ?src")
    case (Inl ex)
    from Cons.IH[of t0] obtain tbl where
      t: "resolveFunctions env dir decls t0 = (tbl, ?ws)" and d: "dom tbl = dom t0 \<union> ?ok"
      by blast
    from d Inl have "dom tbl = dom t0 \<union>
           {fnName d' | d'. d' \<in> set (d # decls) \<and>
              (\<exists>body. readFile env (findFile env dir (''./'' @ fnName d' @ ''.js'')) = Inr body)}"
      by auto
    with t Inl show ?thesis by (simp add: Let_def)
  next
    case (Inr body)
    let ?t1 = "t0(fnName d \<mapsto> \<lparr>name = fnName d, code = body, schema = fnSchema d, source = ?src\<rparr>)"
    from Cons.IH[of ?t1] obtain tbl where
      t: "resolveFunctions env dir decls ?t1 = (tbl, ?ws)" and d: "dom tbl = dom ?t1 \<union> ?ok"
      by blast
    from d Inr have "dom tbl = dom t0 \<union>
           {fnName d' | d'. d' \<in> set (d # decls) \<and>
              (\<exists>body. readFile env (findFile env dir (''./'' @ fnName d' @ ''.js'')) = Inr body)}"
      by auto
    with t Inr show ?thesis by (simp add: Let_def)
  qed
qed

lemma processOwn_functions:
  assumes "file_functions ruleset = Some decls"
    and "resolveFunctions env (rulesetFunctionsBaseDir env rulesetUri ruleset) decls Map.empty =
           (resolved, ws)"
  shows "\<exists>rs ex. processOwn env baseUri rulesetUri severity ruleset acc =
           (\<lparr>rules = rs, functionsOf = mergeFunctions env (functionsOf acc) resolved rs,
             exceptions = ex\<rparr>, ws)"
  using assms by (simp add: processOwn_def Let_def)




text \<open>
  Claim C3. \<^verbatim>\<open>findFile\<close> answers with a locator also for a file that does not
  exist, so a function whose file cannot be located and one whose file cannot be read
  both show as an error of \<^verbatim>\<open>readFile\<close>, inside the \<^verbatim>\<open>try\<close> block. For a
  ruleset that declares functions: the warnings printed by its own part are exactly one
  for each declaration whose file cannot be read, each naming the function; the table
  handed to \<^verbatim>\<open>mergeFunctions\<close> holds exactly the declared functions whose file
  can be read; and the own part never fails, so once the \<^verbatim>\<open>extends\<close> entries are
  merged \<^verbatim>\<open>processRuleset\<close> returns the ruleset.
\<close>

theorem unloadable_function_warns:
  assumes decls: "file_functions ruleset = Some decls"
    and dir: "dir = rulesetFunctionsBaseDir env rulesetUri ruleset"
  shows "(\<exists>resolved rs ex.
            processOwn env baseUri rulesetUri severity ruleset acc =
              (\<lparr>rules = rs, functionsOf = mergeFunctions env (functionsOf acc) resolved rs,
                exceptions = ex\<rparr>,
               concat (map (\<lambda>d. case readFile env (findFile env dir (''./'' @ fnName d @ ''.js'')) of
                                   Inl e \<Rightarrow> [warning (fnName d) e]
                                 | Inr body \<Rightarrow> []) decls)) \<and>
            dom resolved =
              {fnName d | d. d \<in> set decls \<and>
                 (\<exists>body. readFile env (findFile env dir (''./'' @ fnName d @ ''.js'')) = Inr body)}) \<and>
         (findFile env (join env [baseUri, ''..'']) uri = rulesetUri \<and> rulesetUri \<notin> P \<and>
          instantiate k env rulesetUri = Some (Inr ruleset) \<and>
          processExtends k env n (insert rulesetUri P) baseUri rulesetUri severity
            (extendedRulesets ruleset)
            \<lparr>rules = Map.empty, functionsOf = Map.empty, exceptions = Map.empty\<rparr> =
            Some (Inr acc, P', ws) \<longrightarrow>
          processRuleset k env (Suc n) P baseUri uri severity =
            Some (Inr (Some (fst (processOwn env baseUri rulesetUri severity ruleset acc))), P',
                  ws @ snd (processOwn env baseUri rulesetUri severity ruleset acc)))"
proof (intro conjI impI)
  from resolveFunctions_result[of env dir decls Map.empty] obtain resolved where
    rf: "resolveFunctions env dir decls Map.empty =
           (resolved,
            concat (map (\<lambda>d. case readFile env (findFile env dir (''./'' @ fnName d @ ''.js'')) of
                                Inl ex \<Rightarrow> [warning (fnName d) ex]
                              | Inr body \<Rightarrow> []) decls))"
    and dm: "dom resolved =
             {fnName d | d. d \<in> set decls \<and>
                (\<exists>body. readFile env (findFile env dir (''./'' @ fnName d @ ''.js'')) = Inr body)}"
    by auto
  from processOwn_functions[OF decls rf[unfolded dir], of baseUri severity acc] dm dir
  show "\<exists>resolved rs ex.
            processOwn env baseUri rulesetUri severity ruleset acc =
              (\<lparr>rules = rs, functionsOf = mergeFunctions env (functionsOf acc) resolved rs,
                exceptions = ex\<rparr>,
               concat (map (\<lambda>d. case readFile env (findFile env dir (''./'' @ fnName d @ ''.js'')) of
                                   Inl e \<Rightarrow> [warning (fnName d) e]
                                 | Inr body \<Rightarrow> []) decls)) \<and>
            dom resolved =
              {fnName d | d. d \<in> set decls \<and>
                 (\<exists>body. readFile env (findFile env dir (''./'' @ fnName d @ ''.js'')) = Inr body)}"
    by blast
next
  assume a: "findFile env (join env [baseUri, ''..'']) uri = rulesetUri \<and> rulesetUri \<notin> P \<and>
          instantiate k env rulesetUri = Some (Inr ruleset) \<and>
          processExtends k env n (insert rulesetUri P) baseUri rulesetUri severity
            (extendedRulesets ruleset)
            \<lparr>rules = Map.empty, functionsOf = Map.empty, exceptions = Map.empty\<rparr> =
            Some (Inr acc, P', ws)"
  then have f: "findFile env (join env [baseUri, ''..'']) uri = rulesetUri"
    and nv: "rulesetUri \<notin> P" and i: "instantiate k env rulesetUri = Some (Inr ruleset)"
    and l: "processExtends k env n (insert rulesetUri P) baseUri rulesetUri severity
              (extendedRulesets ruleset)
              \<lparr>rules = Map.empty, functionsOf = Map.empty, exceptions = Map.empty\<rparr> =
              Some (Inr acc, P', ws)"
    by simp_all
  from processRuleset_unfold[OF f nv i, of n severity] l
  show "processRuleset k env (Suc n) P baseUri uri severity =
            Some (Inr (Some (fst (processOwn env baseUri rulesetUri severity ruleset acc))), P',
                  ws @ snd (processOwn env baseUri rulesetUri severity ruleset acc))"
    by (cases "processOwn env baseUri rulesetUri severity ruleset acc") simp
qed

lemma example_f:
  "processRuleset 1 exampleEnv 1 {} ''/f.yaml'' ''/f.yaml'' None =
     Some (Inr (Some \<lparr>rules = Map.empty,
                       functionsOf = [''f1'' \<mapsto> \<lparr>name = ''f1'',
                                                 code = ''module.exports = () => [];'',
                                                 schema = JNull, source = ''/functions/f1.js''\<rparr>],
                       exceptions = Map.empty\<rparr>),
           {''/f.yaml''},
           [''Function '' @ [CHR 0x27] @ ''f2'' @ [CHR 0x27] @ '' could not be loaded: ENOENT''])"
  by (simp add: example_defs)

theorem unloadable_function_warns_witness:
  "file_functions (emptyFile\<lparr>file_functions := Some [FnName ''f1'', FnName ''f2'']\<rparr>) =
     Some [FnName ''f1'', FnName ''f2''] \<and>
   readFile exampleEnv (findFile exampleEnv ''/functions'' ''./f1.js'') =
     Inr ''module.exports = () => [];'' \<and>
   readFile exampleEnv (findFile exampleEnv ''/functions'' ''./f2.js'') = Inl (Thrown ''ENOENT'') \<and>
   snd (processOwn exampleEnv ''/f.yaml'' ''/f.yaml'' None
          (emptyFile\<lparr>file_functions := Some [FnName ''f1'', FnName ''f2'']\<rparr>)
          \<lparr>rules = Map.empty, functionsOf = Map.empty, exceptions = Map.empty\<rparr>) =
     [''Function '' @ [CHR 0x27] @ ''f2'' @ [CHR 0x27] @ '' could not be loaded: ENOENT''] \<and>
   processRuleset 1 exampleEnv 1 {} ''/f.yaml'' ''/f.yaml'' None =
     Some (Inr (Some \<lparr>rules = Map.empty,
                       functionsOf = [''f1'' \<mapsto> \<lparr>name = ''f1'',
                                                 code = ''module.exports = () => [];'',
                                                 schema = JNull, source = ''/functions/f1.js''\<rparr>],
                       exceptions = Map.empty\<rparr>),
           {''/f.yaml''},
           [''Function '' @ [CHR 0x27] @ ''f2'' @ [CHR 0x27] @ '' could not be loaded: ENOENT''])"
proof -
  let ?doc = "emptyFile\<lparr>file_functions := Some [FnName ''f1'', FnName ''f2'']\<rparr>"
  let ?empty = "\<lparr>rules = Map.empty, functionsOf = Map.empty, exceptions = Map.empty\<rparr>"
  have decls: "file_functions ?doc = Some [FnName ''f1'', FnName ''f2'']"
    by (simp add: emptyFile_def)
  have dir: "''/functions'' = rulesetFunctionsBaseDir exampleEnv ''/f.yaml'' ?doc"
    by (simp add: rulesetFunctionsBaseDir_def exampleEnv_def emptyFile_def)
  have r1: "readFile exampleEnv (findFile exampleEnv ''/functions'' ''./f1.js'') =
              Inr ''module.exports = () => [];''"
    by (simp add: exampleEnv_def exampleDocuments_def)
  have r2: "readFile exampleEnv (findFile exampleEnv ''/functions'' ''./f2.js'') =
              Inl (Thrown ''ENOENT'')"
    by (simp add: exampleEnv_def exampleDocuments_def)
  from unloadable_function_warns[OF decls dir, of "''/f.yaml''" None ?empty "''/f.yaml''" "{}" 1 0
      "{''/f.yaml''}" "[]"]
  have "snd (processOwn exampleEnv ''/f.yaml'' ''/f.yaml'' None ?doc ?empty) =
          concat (map (\<lambda>d. case readFile exampleEnv
                                   (findFile exampleEnv ''/functions'' (''./'' @ fnName d @ ''.js'')) of
                              Inl e \<Rightarrow> [warning (fnName d) e]
                            | Inr body \<Rightarrow> []) [FnName ''f1'', FnName ''f2''])"
    by auto
  with r1 r2 have w: "snd (processOwn exampleEnv ''/f.yaml'' ''/f.yaml'' None ?doc ?empty) =
     [''Function '' @ [CHR 0x27] @ ''f2'' @ [CHR 0x27] @ '' could not be loaded: ENOENT'']"
    by (simp add: warning_def)
  from decls r1 r2 w example_f show ?thesis by blast
qed

end
